theory Spec2Isabelle
  imports Main "HOL-Library.Word"
begin

unbundle bit_operations_syntax

section \<open>pflask, src/netif.c: rtnetlink requests and the queue of interface actions\<close>

text \<open>
  The module builds rtnetlink \<open>RTM_NEWLINK\<close> requests by hand in a buffer obtained from
  \<open>malloc(NLMSG_GOOD_SIZE)\<close>, sends each one over a netlink socket and reads the
  acknowledgement back.  The embedding follows the C text function by function.

  \<^item> Sizes, offsets and lengths are natural numbers; where the C assigns to a narrower
    unsigned field the truncation is written out (\<open>mod 2 ^ 16\<close> for the
    \<open>unsigned short\<close> fields of \<open>struct rtattr\<close>, \<open>mod 2 ^ 32\<close> for \<open>nlmsg_len\<close> and
    for the \<open>unsigned int\<close> alignment masks).  Arithmetic in \<open>size_t\<close> is not reduced: a payload
    in memory is shorter than \<open>2 ^ 64 - 4\<close> bytes, so \<open>RTA_LENGTH\<close> of its length does not
    wrap.
  \<^item> The fixed part of \<open>struct nlmsg\<close> (header and link-info body) is a record.  A
    field that \<open>malloc\<close> left unassigned is \<open>None\<close>.
  \<^item> The bytes behind the fixed part are a store from byte offsets (counted from the
    start of the allocation) to bytes; an offset the program has not written is \<open>None\<close>.
    Offsets from \<open>NLMSG_GOOD_SIZE\<close> on lie outside the allocation.  The record and the
    store are kept apart, which is exact from length \<open>NLMSG_LENGTH(sizeof(struct
    ifinfomsg))\<close> on, where every request of the module starts.
  \<^item> Multi-byte fields are stored least significant byte first, the host order of the
    platforms netlink is used on.
  \<^item> The error code of an answer is a 32-bit word, read as a signed \<open>int\<close> and negated as
    one; the results of \<open>sendmsg\<close> and \<open>recvmsg\<close> are converted to \<open>int\<close> where the C stores
    them in \<open>int rc\<close>.
\<close>

subsection \<open>Platform declarations used by the module\<close>

text \<open>
  The structures and macros of \<open>linux/netlink.h\<close>, \<open>linux/rtnetlink.h\<close>,
  \<open>linux/if_link.h\<close>, \<open>linux/veth.h\<close> and \<open>net/if.h\<close> are not part of the repository;
  they are written down here with the values of the Linux ABI.
\<close>

type_synonym byte = "8 word"

type_synonym store = "nat \<rightharpoonup> byte"

definition sizeof_nlmsghdr :: nat where
  "sizeof_nlmsghdr = 16"

definition sizeof_ifinfomsg :: nat where
  "sizeof_ifinfomsg = 16"

definition sizeof_nlmsgerr :: nat where
  "sizeof_nlmsgerr = 20"

definition sizeof_rtattr :: nat where
  "sizeof_rtattr = 4"

definition sizeof_int :: nat where
  "sizeof_int = 4"

definition RTM_NEWLINK :: nat where "RTM_NEWLINK = 16"
definition NLMSG_ERROR :: nat where "NLMSG_ERROR = 2"
definition NLM_F_REQUEST :: nat where "NLM_F_REQUEST = 1"
definition NLM_F_ACK :: nat where "NLM_F_ACK = 4"
definition NLM_F_EXCL :: nat where "NLM_F_EXCL = 512"
definition NLM_F_CREATE :: nat where "NLM_F_CREATE = 1024"
definition AF_UNSPEC :: nat where "AF_UNSPEC = 0"
definition IFF_UP :: nat where "IFF_UP = 1"
definition IFLA_IFNAME :: nat where "IFLA_IFNAME = 3"
definition IFLA_LINK :: nat where "IFLA_LINK = 5"
definition IFLA_LINKINFO :: nat where "IFLA_LINKINFO = 18"
definition IFLA_NET_NS_PID :: nat where "IFLA_NET_NS_PID = 19"
definition IFLA_INFO_KIND :: nat where "IFLA_INFO_KIND = 1"
definition IFLA_INFO_DATA :: nat where "IFLA_INFO_DATA = 2"
definition VETH_INFO_PEER :: nat where "VETH_INFO_PEER = 1"

text \<open>
  \<open>#define NLMSG_ALIGN(len) (((len) + NLMSG_ALIGNTO - 1) & ~(NLMSG_ALIGNTO - 1))\<close> with
  \<open>NLMSG_ALIGNTO = 4U\<close>: unsigned 32-bit arithmetic, the two low bits cleared.
  \<open>RTA_ALIGN\<close> is the same expression with \<open>RTA_ALIGNTO = 4U\<close>; its mask is an
  \<open>unsigned int\<close>, so the result is below \<open>2 ^ 32\<close> also for a \<open>size_t\<close> argument.
\<close>

definition NLMSG_ALIGN :: "nat \<Rightarrow> nat" where
  "NLMSG_ALIGN len = ((len + 3) mod 2 ^ 32) div 4 * 4"

definition NLMSG_HDRLEN :: nat where
  "NLMSG_HDRLEN = NLMSG_ALIGN sizeof_nlmsghdr"

definition NLMSG_LENGTH :: "nat \<Rightarrow> nat" where
  "NLMSG_LENGTH len = len + NLMSG_HDRLEN"

definition RTA_ALIGN :: "nat \<Rightarrow> nat" where
  "RTA_ALIGN len = ((len + 3) mod 2 ^ 32) div 4 * 4"

definition RTA_LENGTH :: "nat \<Rightarrow> nat" where
  "RTA_LENGTH len = RTA_ALIGN sizeof_rtattr + len"

text \<open>\<open>RTA_DATA(rta)\<close> and \<open>RTA_PAYLOAD(rta)\<close>, on the offset of the attribute and on its
  length field.\<close>

definition RTA_DATA :: "nat \<Rightarrow> nat" where
  "RTA_DATA rta = rta + RTA_LENGTH 0"

definition RTA_PAYLOAD :: "nat \<Rightarrow> nat" where
  "RTA_PAYLOAD rta_len = rta_len - RTA_LENGTH 0"

subsection \<open>The message buffer\<close>

record nlmsghdr =
  nlmsg_len :: nat
  nlmsg_type :: nat
  nlmsg_flags :: nat
  nlmsg_seq :: nat

record ifinfomsg =
  ifi_family :: "nat option"
  ifi_index :: "nat option"
  ifi_flags :: "nat option"
  ifi_change :: "nat option"

text \<open>
  \<open>struct nlmsg\<close> is a header and the union of \<open>ifi\<close> and \<open>err\<close>.  The module writes a
  request through the member \<open>ifi\<close> and reads the buffer \<open>recvmsg\<close> has filled through
  the member \<open>err\<close>, so there is one record for each view: \<open>nlmsg\<close> for the request,
  with the bytes the program wrote behind the fixed part in \<open>mem\<close>, and \<open>nlmsg_err\<close> for
  the buffer after \<open>recvmsg\<close>.
\<close>

record nlmsg =
  hdr :: nlmsghdr
  ifi :: ifinfomsg
  mem :: store

record nlmsg_err =
  err_hdr :: nlmsghdr
  err_error :: "32 word"

text \<open>
  An \<open>int\<close> has 32 bits.  The member \<open>error\<close> of \<open>struct nlmsgerr\<close> is one: \<open>sint\<close> reads
  it, and its negation is the negation of the machine, which gives \<open>INT_MIN\<close> for
  \<open>INT_MIN\<close> (the language leaves that one negation undefined).  \<open>to_int\<close> is the
  conversion of a wider value to \<open>int\<close>, as in \<open>rc = sendmsg(...)\<close>, where the result is a
  \<open>ssize_t\<close>: the low 32 bits, read in two's complement.
\<close>

definition INT_MIN :: "32 word" where
  "INT_MIN = - (2 ^ 31)"

definition to_int :: "int \<Rightarrow> int" where
  "to_int x = (x + 2 ^ 31) mod 2 ^ 32 - 2 ^ 31"

definition sizeof_nlmsg :: nat where
  "sizeof_nlmsg = sizeof_nlmsghdr + max sizeof_ifinfomsg sizeof_nlmsgerr"

definition NLMSG_GOOD_SIZE :: nat where
  "NLMSG_GOOD_SIZE = sizeof_nlmsg * 256"

text \<open>\<open>NLMSG_TAIL(nmsg)\<close>, as an offset from the start of the buffer.\<close>

definition NLMSG_TAIL :: "nlmsghdr \<Rightarrow> nat" where
  "NLMSG_TAIL nmsg = NLMSG_ALIGN (nlmsg_len nmsg)"

text \<open>Storing an \<open>unsigned short\<close> and copying a block of bytes.\<close>

definition put_u16 :: "nat \<Rightarrow> nat \<Rightarrow> store \<Rightarrow> store" where
  "put_u16 p v m = m(p \<mapsto> of_nat (v mod 256), p + 1 \<mapsto> of_nat (v div 256 mod 256))"

definition get_u16 :: "store \<Rightarrow> nat \<Rightarrow> nat option" where
  "get_u16 m p =
     (case (m p, m (p + 1)) of
        (Some lo, Some hi) \<Rightarrow> Some (unat lo + 256 * unat hi)
      | _ \<Rightarrow> None)"

fun memcpy :: "nat \<Rightarrow> byte list \<Rightarrow> store \<Rightarrow> store" where
  "memcpy p [] m = m"
| "memcpy p (b # bs) m = memcpy (Suc p) bs (m(p \<mapsto> b))"

text \<open>
  \<open>rtattr_append(nlmsg, attr, d, len)\<close>; the payload \<open>d\<close>, \<open>len\<close> is the list of the
  bytes copied.
\<close>

definition rtattr_append :: "nlmsg \<Rightarrow> nat \<Rightarrow> byte list \<Rightarrow> nlmsg" where
  "rtattr_append nlmsg attr d =
     (let len = length d;
          rtalen = RTA_LENGTH len;
          rtattr = NLMSG_TAIL (hdr nlmsg);
          m1 = put_u16 (rtattr + 2) (attr mod 2 ^ 16) (mem nlmsg);
          m2 = put_u16 rtattr (rtalen mod 2 ^ 16) m1;
          m3 = memcpy (RTA_DATA rtattr) d m2
      in nlmsg\<lparr>hdr := (hdr nlmsg)\<lparr>nlmsg_len :=
                 (NLMSG_ALIGN (nlmsg_len (hdr nlmsg)) + RTA_ALIGN rtalen) mod 2 ^ 32\<rparr>,
               mem := m3\<rparr>)"

text \<open>\<open>rtattr_start_nested\<close> returns the offset of the attribute it opens.\<close>

definition rtattr_start_nested :: "nlmsg \<Rightarrow> nat \<Rightarrow> nat \<times> nlmsg" where
  "rtattr_start_nested nlmsg attr =
     (let rtattr = NLMSG_TAIL (hdr nlmsg)
      in (rtattr, rtattr_append nlmsg attr []))"

text \<open>\<open>rtattr_end_nested\<close>: the pointer difference, stored in the \<open>unsigned short\<close>
  length field of the attribute at \<open>rtattr\<close>.\<close>

definition rtattr_end_nested :: "nlmsg \<Rightarrow> nat \<Rightarrow> nlmsg" where
  "rtattr_end_nested nlmsg rtattr =
     nlmsg\<lparr>mem := put_u16 rtattr
        (nat ((int (NLMSG_TAIL (hdr nlmsg)) - int rtattr) mod 2 ^ 16)) (mem nlmsg)\<rparr>"

text \<open>Reading an attribute back: its length field, its type and its payload.\<close>

definition rta_len :: "nlmsg \<Rightarrow> nat \<Rightarrow> nat option" where
  "rta_len nlmsg rtattr = get_u16 (mem nlmsg) rtattr"

definition rta_type :: "nlmsg \<Rightarrow> nat \<Rightarrow> nat option" where
  "rta_type nlmsg rtattr = get_u16 (mem nlmsg) (rtattr + 2)"

definition rta_payload :: "nlmsg \<Rightarrow> nat \<Rightarrow> byte option list" where
  "rta_payload nlmsg rtattr =
     (case rta_len nlmsg rtattr of
        None \<Rightarrow> []
      | Some l \<Rightarrow> map (mem nlmsg) [RTA_DATA rtattr ..< RTA_DATA rtattr + RTA_PAYLOAD l])"

subsection \<open>Payloads\<close>

text \<open>
  A \<open>char *\<close> argument is a string; the C string it denotes ends before the first NUL.
  \<open>string_bytes s\<close> are the \<open>strlen(s) + 1\<close> bytes the module copies from it, the
  terminator included.  \<open>int_bytes v\<close> are the \<open>sizeof(int)\<close> bytes of an \<open>int\<close> object.
\<close>

definition strlen :: "string \<Rightarrow> nat" where
  "strlen s = length (takeWhile (\<lambda>c. c \<noteq> CHR 0x00) s)"

definition string_bytes :: "string \<Rightarrow> byte list" where
  "string_bytes s = map of_char (takeWhile (\<lambda>c. c \<noteq> CHR 0x00) s) @ [0]"

definition int_bytes :: "int \<Rightarrow> byte list" where
  "int_bytes v = map (\<lambda>i. of_int (v div 256 ^ i)) [0 ..< sizeof_int]"

text \<open>The \<open>%d\<close> conversion of \<open>asprintf\<close>.\<close>

fun dec :: "nat \<Rightarrow> string" where
  "dec n = (if n < 10 then [char_of (48 + n)] else dec (n div 10) @ [char_of (48 + n mod 10)])"

declare dec.simps [simp del]

definition printf_d :: "int \<Rightarrow> string" where
  "printf_d i = (if i < 0 then CHR ''-'' # dec (nat (- i)) else dec (nat i))"

text \<open>The name \<open>asprintf(&name, "pflask-%d", pid)\<close> makes.\<close>

definition pflask_name :: "int \<Rightarrow> string" where
  "pflask_name pid = ''pflask-'' @ printf_d pid"

subsection \<open>The four requests\<close>

text \<open>
  Each of \<open>if_up\<close>, \<open>move_and_rename_if\<close>, \<open>create_macvlan\<close> and \<open>create_veth_pair\<close>
  first fills a fresh buffer and then sends it.  The buffer as it stands at the call of
  \<open>nl_send\<close> is defined here; the functions themselves follow below.
\<close>

definition if_up_req :: "nat \<Rightarrow> nlmsg" where
  "if_up_req if_index =
     \<lparr>hdr = \<lparr>nlmsg_len = NLMSG_LENGTH sizeof_ifinfomsg,
             nlmsg_type = RTM_NEWLINK,
             nlmsg_flags = NLM_F_REQUEST OR NLM_F_ACK,
             nlmsg_seq = 1\<rparr>,
      ifi = \<lparr>ifi_family = Some AF_UNSPEC,
             ifi_index = Some if_index,
             ifi_flags = Some IFF_UP,
             ifi_change = Some IFF_UP\<rparr>,
      mem = Map.empty\<rparr>"

definition move_and_rename_if_req :: "int \<Rightarrow> nat \<Rightarrow> string \<Rightarrow> nlmsg" where
  "move_and_rename_if_req pid if_index new_name =
     (let req = \<lparr>hdr = \<lparr>nlmsg_len = NLMSG_LENGTH sizeof_ifinfomsg,
                        nlmsg_type = RTM_NEWLINK,
                        nlmsg_flags = NLM_F_REQUEST OR NLM_F_ACK,
                        nlmsg_seq = 1\<rparr>,
                 ifi = \<lparr>ifi_family = Some AF_UNSPEC,
                        ifi_index = Some if_index,
                        ifi_flags = None,
                        ifi_change = None\<rparr>,
                 mem = Map.empty\<rparr>;
          req = rtattr_append req IFLA_NET_NS_PID (int_bytes pid);
          req = rtattr_append req IFLA_IFNAME (string_bytes new_name)
      in req)"

definition create_macvlan_req :: "nat \<Rightarrow> string \<Rightarrow> nlmsg" where
  "create_macvlan_req master name =
     (let req = \<lparr>hdr = \<lparr>nlmsg_len = NLMSG_LENGTH sizeof_ifinfomsg,
                        nlmsg_type = RTM_NEWLINK,
                        nlmsg_flags = NLM_F_REQUEST OR NLM_F_CREATE OR NLM_F_EXCL OR NLM_F_ACK,
                        nlmsg_seq = 1\<rparr>,
                 ifi = \<lparr>ifi_family = Some AF_UNSPEC,
                        ifi_index = None,
                        ifi_flags = None,
                        ifi_change = None\<rparr>,
                 mem = Map.empty\<rparr>;
          (nested, req) = rtattr_start_nested req IFLA_LINKINFO;
          req = rtattr_append req IFLA_INFO_KIND (string_bytes ''macvlan'');
          req = rtattr_end_nested req nested;
          req = rtattr_append req IFLA_LINK (int_bytes (int master));
          req = rtattr_append req IFLA_IFNAME (string_bytes name)
      in req)"

definition create_veth_pair_req :: "string \<Rightarrow> string \<Rightarrow> nlmsg" where
  "create_veth_pair_req name_out name_in =
     (let req = \<lparr>hdr = \<lparr>nlmsg_len = NLMSG_LENGTH sizeof_ifinfomsg,
                        nlmsg_type = RTM_NEWLINK,
                        nlmsg_flags = NLM_F_REQUEST OR NLM_F_CREATE OR NLM_F_EXCL OR NLM_F_ACK,
                        nlmsg_seq = 1\<rparr>,
                 ifi = \<lparr>ifi_family = Some AF_UNSPEC,
                        ifi_index = None,
                        ifi_flags = None,
                        ifi_change = None\<rparr>,
                 mem = Map.empty\<rparr>;
          (nested_info, req) = rtattr_start_nested req IFLA_LINKINFO;
          req = rtattr_append req IFLA_INFO_KIND (string_bytes ''veth'');
          (nested_data, req) = rtattr_start_nested req IFLA_INFO_DATA;
          (nested_peer, req) = rtattr_start_nested req VETH_INFO_PEER;
          req = req\<lparr>hdr := (hdr req)\<lparr>nlmsg_len :=
                  (nlmsg_len (hdr req) + sizeof_ifinfomsg) mod 2 ^ 32\<rparr>\<rparr>;
          req = rtattr_append req IFLA_IFNAME (string_bytes name_in);
          req = rtattr_end_nested req nested_peer;
          req = rtattr_end_nested req nested_data;
          req = rtattr_end_nested req nested_info;
          req = rtattr_append req IFLA_IFNAME (string_bytes name_out)
      in req)"

subsection \<open>Sequences of calls of the attribute functions\<close>

text \<open>
  A properly nested sequence of calls of \<open>rtattr_append\<close>, \<open>rtattr_start_nested\<close> and
  \<open>rtattr_end_nested\<close> is a list of trees: \<open>Append attr d\<close> is one call of
  \<open>rtattr_append\<close>; \<open>Nested attr cs\<close> is a call of \<open>rtattr_start_nested\<close>, the calls \<open>cs\<close>,
  and the call of \<open>rtattr_end_nested\<close> on the offset the opening call returned.
  \<open>run_calls\<close> performs the calls on a buffer.  Beside the buffer it returns, for every
  call of \<open>rtattr_end_nested\<close> made, the offset the call was given and the total length
  of the message at that call.
\<close>

datatype rtattr_call = Append nat "byte list" | Nested nat "rtattr_call list"


text \<open>The bytes a sequence of calls takes in the buffer, and how deep it nests.\<close>

fun padded_size :: "rtattr_call \<Rightarrow> nat"
  and padded_sizes :: "rtattr_call list \<Rightarrow> nat" where
  "padded_size (Append attr d) = (RTA_LENGTH (length d) + 3) div 4 * 4"
| "padded_size (Nested attr cs) = RTA_LENGTH 0 + padded_sizes cs"
| "padded_sizes [] = 0"
| "padded_sizes (c # cs) = padded_size c + padded_sizes cs"

fun depth :: "rtattr_call \<Rightarrow> nat"
  and depths :: "rtattr_call list \<Rightarrow> nat" where
  "depth (Append attr d) = 0"
| "depth (Nested attr cs) = Suc (depths cs)"
| "depths [] = 0"
| "depths (c # cs) = max (depth c) (depths cs)"


subsection \<open>The process, the kernel and the ways the process ends\<close>

text \<open>
  The kernel is a state of any type \<open>'k\<close> together with the system calls the module
  makes, each a function of that state.  \<open>os_if_nametoindex\<close> gives 0 for a name that
  is no interface.  \<open>os_recvmsg\<close> gives the return code and the buffer as \<open>recvmsg\<close> left
  it.  \<open>os_strerror\<close> is the errno table of the platform.
\<close>

record 'k os =
  os_socket :: "'k \<Rightarrow> int \<times> 'k"
  os_bind :: "int \<Rightarrow> 'k \<Rightarrow> int \<times> 'k"
  os_close :: "int \<Rightarrow> 'k \<Rightarrow> 'k"
  os_if_nametoindex :: "string \<Rightarrow> 'k \<Rightarrow> nat"
  os_sendmsg :: "int \<Rightarrow> nlmsg \<Rightarrow> 'k \<Rightarrow> int \<times> 'k"
  os_recvmsg :: "int \<Rightarrow> nlmsg \<Rightarrow> 'k \<Rightarrow> (int \<times> nlmsg_err) \<times> 'k"
  os_strerror :: "int \<Rightarrow> string"

text \<open>
  \<open>struct NETIF_LIST\<close>, with its fields \<open>type\<close>, \<open>dev\<close> and \<open>name\<close>; the \<open>next\<close> pointer is
  the tail of the list the node heads.
\<close>

datatype netif_type = MOVE | MACVLAN | VETH

record netif_list =
  nif_type :: netif_type
  nif_dev :: string
  nif_name :: string

text \<open>
  What the process does to the world is recorded as it happens: every system call with
  its result, and every call of \<open>move_and_rename_if\<close> with its arguments.
\<close>

datatype event =
    Socket int
  | Bind int int
  | Close int
  | If_nametoindex string nat
  | Sendmsg int nlmsg int
  | Recvmsg int nlmsg_err int
  | Move_and_rename_if int nat string

text \<open>The state: the global \<open>netifs\<close>, the kernel, and the record of events.\<close>

record 'k world =
  netifs :: "netif_list list"
  kernel :: 'k
  trace :: "event list"

text \<open>
  The messages the process can end with: \<open>"OOM"\<close>, \<open>"Error searching for '%s'"\<close> with the
  name, \<open>"Error sending netlink request: %s"\<close> with the text \<open>strerror\<close> gave, and
  \<open>"socket()"\<close>, \<open>"bind()"\<close>, \<open>"sendmsg()"\<close>, \<open>"recvmsg()"\<close>.
\<close>

datatype failure =
    OOM
  | Error_searching_for string
  | Error_sending_netlink_request string
  | Failed_socket
  | Failed_bind
  | Failed_sendmsg
  | Failed_recvmsg

text \<open>
  A function of the module that acts on the world either returns a value or ends the
  process; both ways it leaves a world behind.
\<close>

type_synonym ('a, 'k) prog = "'k world \<Rightarrow> (failure + 'a) \<times> 'k world"

definition ret :: "'a \<Rightarrow> ('a, 'k) prog" where
  "ret x w = (Inr x, w)"

definition andthen :: "('a, 'k) prog \<Rightarrow> ('a \<Rightarrow> ('b, 'k) prog) \<Rightarrow> ('b, 'k) prog" where
  "andthen m f w = (case m w of (Inl e, w') \<Rightarrow> (Inl e, w') | (Inr x, w') \<Rightarrow> f x w')"

text \<open>
  Modelled from the spec: \<open>fail_printf\<close> and \<open>sysf_printf\<close> are declared in \<open>printf.h\<close>,
  which is not among the sources.  By the spec every error is unrecoverable where it
  occurs, aborts the whole sequence at once and reaches the invoking process as a
  terminating condition with a descriptive message: both functions end the process with
  their message, and nothing behind the call is executed.
\<close>

definition fail_printf :: "failure \<Rightarrow> ('a, 'k) prog" where
  "fail_printf msg w = (Inl msg, w)"

definition sysf_printf :: "failure \<Rightarrow> ('a, 'k) prog" where
  "sysf_printf msg w = (Inl msg, w)"

text \<open>
  Allocation (\<open>malloc\<close>, \<open>strdup\<close>, \<open>asprintf\<close>) is taken to succeed, so the exits with
  \<open>"OOM"\<close> are not branches of the functions below.
\<close>

definition log :: "event \<Rightarrow> 'k world \<Rightarrow> 'k world" where
  "log ev w = w\<lparr>trace := trace w @ [ev]\<rparr>"

text \<open>The system calls, each recorded with its result.\<close>

definition socket :: "'k os \<Rightarrow> (int, 'k) prog" where
  "socket os w =
     (case os_socket os (kernel w) of
        (fd, k) \<Rightarrow> (Inr fd, log (Socket fd) (w\<lparr>kernel := k\<rparr>)))"

definition bind_sock :: "'k os \<Rightarrow> int \<Rightarrow> (int, 'k) prog" where
  "bind_sock os sock w =
     (case os_bind os sock (kernel w) of
        (rc, k) \<Rightarrow> (Inr rc, log (Bind sock rc) (w\<lparr>kernel := k\<rparr>)))"

definition close :: "'k os \<Rightarrow> int \<Rightarrow> (unit, 'k) prog" where
  "close os sock w =
     (Inr (), log (Close sock) (w\<lparr>kernel := os_close os sock (kernel w)\<rparr>))"

definition if_nametoindex :: "'k os \<Rightarrow> string \<Rightarrow> (nat, 'k) prog" where
  "if_nametoindex os ifname w =
     (let if_index = os_if_nametoindex os ifname (kernel w)
      in (Inr if_index, log (If_nametoindex ifname if_index) w))"

definition sendmsg :: "'k os \<Rightarrow> int \<Rightarrow> nlmsg \<Rightarrow> (int, 'k) prog" where
  "sendmsg os sock nlmsg w =
     (case os_sendmsg os sock nlmsg (kernel w) of
        (rc, k) \<Rightarrow> (Inr rc, log (Sendmsg sock nlmsg rc) (w\<lparr>kernel := k\<rparr>)))"

definition recvmsg :: "'k os \<Rightarrow> int \<Rightarrow> nlmsg \<Rightarrow> (int \<times> nlmsg_err, 'k) prog" where
  "recvmsg os sock nlmsg w =
     (case os_recvmsg os sock nlmsg (kernel w) of
        ((rc, nlmsg'), k) \<Rightarrow>
          (Inr (rc, nlmsg'), log (Recvmsg sock nlmsg' rc) (w\<lparr>kernel := k\<rparr>)))"

subsection \<open>The netlink session\<close>

definition nl_open :: "'k os \<Rightarrow> (int, 'k) prog" where
  "nl_open os =
     andthen (socket os) (\<lambda>sock.
       if sock < 0 then sysf_printf Failed_socket
       else andthen (bind_sock os sock) (\<lambda>rc.
         if rc < 0 then sysf_printf Failed_bind
         else ret sock))"

definition nl_send :: "'k os \<Rightarrow> int \<Rightarrow> nlmsg \<Rightarrow> (unit, 'k) prog" where
  "nl_send os sock nlmsg =
     andthen (sendmsg os sock nlmsg) (\<lambda>rc.
       if to_int rc < 0 then sysf_printf Failed_sendmsg else ret ())"

text \<open>\<open>nl_recv\<close> receives into the buffer of the request; what it returns is that buffer
  afterwards.\<close>

definition nl_recv :: "'k os \<Rightarrow> int \<Rightarrow> nlmsg \<Rightarrow> (nlmsg_err, 'k) prog" where
  "nl_recv os sock nlmsg =
     andthen (recvmsg os sock nlmsg) (\<lambda>(rc, nlmsg').
       if to_int rc < 0 then sysf_printf Failed_recvmsg else ret nlmsg')"

subsection \<open>The interface operations\<close>

definition if_up :: "'k os \<Rightarrow> int \<Rightarrow> nat \<Rightarrow> (unit, 'k) prog" where
  "if_up os sock if_index =
     (let req = if_up_req if_index in
      andthen (nl_send os sock req) (\<lambda>_.
      andthen (nl_recv os sock req) (\<lambda>req.
        if nlmsg_type (err_hdr req) = NLMSG_ERROR then
          if sint (err_error req) < 0 then
            fail_printf (Error_sending_netlink_request (os_strerror os (sint (- err_error req))))
          else ret ()
        else ret ())))"

definition move_and_rename_if :: "'k os \<Rightarrow> int \<Rightarrow> int \<Rightarrow> nat \<Rightarrow> string \<Rightarrow> (unit, 'k) prog" where
  "move_and_rename_if os sock pid if_index new_name =
     andthen (\<lambda>w. (Inr (), log (Move_and_rename_if pid if_index new_name) w)) (\<lambda>_.
      let req = move_and_rename_if_req pid if_index new_name in
      andthen (nl_send os sock req) (\<lambda>_.
      andthen (nl_recv os sock req) (\<lambda>req.
        if nlmsg_type (err_hdr req) = NLMSG_ERROR then
          if sint (err_error req) < 0 then
            fail_printf (Error_sending_netlink_request (os_strerror os (sint (- err_error req))))
          else ret ()
        else ret ())))"

definition create_macvlan :: "'k os \<Rightarrow> int \<Rightarrow> nat \<Rightarrow> string \<Rightarrow> (unit, 'k) prog" where
  "create_macvlan os sock master name =
     (let req = create_macvlan_req master name in
      andthen (nl_send os sock req) (\<lambda>_.
      andthen (nl_recv os sock req) (\<lambda>req.
        if nlmsg_type (err_hdr req) = NLMSG_ERROR then
          if sint (err_error req) < 0 then
            fail_printf (Error_sending_netlink_request (os_strerror os (sint (- err_error req))))
          else ret ()
        else ret ())))"

definition create_veth_pair :: "'k os \<Rightarrow> int \<Rightarrow> string \<Rightarrow> string \<Rightarrow> (unit, 'k) prog" where
  "create_veth_pair os sock name_out name_in =
     (let req = create_veth_pair_req name_out name_in in
      andthen (nl_send os sock req) (\<lambda>_.
      andthen (nl_recv os sock req) (\<lambda>req.
        if nlmsg_type (err_hdr req) = NLMSG_ERROR then
          if sint (err_error req) < 0 then
            fail_printf (Error_sending_netlink_request (os_strerror os (sint (- err_error req))))
          else ret ()
        else ret ())))"

subsection \<open>The queue of interface actions\<close>

definition add_netif :: "netif_type \<Rightarrow> string \<Rightarrow> string \<Rightarrow> 'k world \<Rightarrow> 'k world" where
  "add_netif type dev name w =
     (let nif = \<lparr>nif_type = type, nif_dev = dev, nif_name = name\<rparr>
      in w\<lparr>netifs := (if netifs w \<noteq> [] then nif # netifs w else [nif])\<rparr>)"

text \<open>
  The first loop of \<open>do_netif\<close>, on the pair of \<open>netifs\<close> and \<open>i\<close>: it moves the nodes
  of \<open>netifs\<close> one by one to the front of \<open>i\<close>.
\<close>

fun do_netif_reverse :: "netif_list list \<Rightarrow> netif_list list \<Rightarrow> netif_list list \<times> netif_list list" where
  "do_netif_reverse [] i = ([], i)"
| "do_netif_reverse (n # next) i = do_netif_reverse next (n # i)"

text \<open>The \<open>switch\<close> in the second loop: what it leaves in \<open>if_index\<close> for the node \<open>i\<close>.\<close>

definition do_netif_switch :: "'k os \<Rightarrow> int \<Rightarrow> int \<Rightarrow> netif_list \<Rightarrow> (nat, 'k) prog" where
  "do_netif_switch os sock pid i =
     (case nif_type i of
        MACVLAN \<Rightarrow>
          (let name = pflask_name pid in
           andthen (if_nametoindex os (nif_dev i)) (\<lambda>if_index.
             if if_index = 0 then sysf_printf (Error_searching_for (nif_dev i))
             else andthen (create_macvlan os sock if_index name) (\<lambda>_.
                    if_nametoindex os name)))
      | VETH \<Rightarrow>
          (let name = pflask_name pid in
           andthen (create_veth_pair os sock (nif_dev i) name) (\<lambda>_.
             if_nametoindex os name))
      | MOVE \<Rightarrow>
          andthen (if_nametoindex os (nif_dev i)) (\<lambda>if_index.
            if if_index = 0 then sysf_printf (Error_searching_for (nif_dev i))
            else ret if_index))"

text \<open>One pass through the body of the second loop: the \<open>switch\<close>, then the call of
  \<open>move_and_rename_if\<close>.\<close>

definition do_netif_body :: "'k os \<Rightarrow> int \<Rightarrow> int \<Rightarrow> netif_list \<Rightarrow> (unit, 'k) prog" where
  "do_netif_body os sock pid i =
     andthen (do_netif_switch os sock pid i) (\<lambda>if_index.
       move_and_rename_if os sock pid if_index (nif_name i))"

text \<open>The second loop, from the node \<open>i\<close> on.\<close>

fun do_netif_loop :: "'k os \<Rightarrow> int \<Rightarrow> int \<Rightarrow> netif_list list \<Rightarrow> (unit, 'k) prog" where
  "do_netif_loop os sock pid [] = ret ()"
| "do_netif_loop os sock pid (i # next) =
     andthen (do_netif_body os sock pid i) (\<lambda>_. do_netif_loop os sock pid next)"

text \<open>
  Modelled from the spec: \<open>_close_\<close> comes from \<open>util.h\<close>, which is not among the sources.
  By the spec the socket is released when the scope that acquired it is left: the
  socket is closed where the function returns.
\<close>

definition do_netif :: "'k os \<Rightarrow> int \<Rightarrow> (unit, 'k) prog" where
  "do_netif os pid =
     andthen (nl_open os) (\<lambda>sock w.
       case do_netif_reverse (netifs w) [] of
         (netifs', i) \<Rightarrow>
           andthen (do_netif_loop os sock pid i) (\<lambda>_. close os sock)
             (w\<lparr>netifs := netifs'\<rparr>))"

definition setup_loopback :: "'k os \<Rightarrow> (unit, 'k) prog" where
  "setup_loopback os =
     andthen (nl_open os) (\<lambda>sock.
     andthen (if_up os sock 1) (\<lambda>_. close os sock))"

subsection \<open>Notions used to state and prove the properties\<close>

text \<open>Registering a list of actions, first to last, by \<open>add_netif\<close>.\<close>

definition add_netifs :: "netif_list list \<Rightarrow> 'k world \<Rightarrow> 'k world" where
  "add_netifs acts w = foldl (\<lambda>w a. add_netif (nif_type a) (nif_dev a) (nif_name a) w) w acts"

text \<open>The calls of \<open>move_and_rename_if\<close> among some events, in their order.\<close>

fun move_calls :: "event list \<Rightarrow> (int \<times> nat \<times> string) list" where
  "move_calls [] = []"
| "move_calls (Move_and_rename_if pid if_index new_name # evs) =
     (pid, if_index, new_name) # move_calls evs"
| "move_calls (ev # evs) = move_calls evs"

text \<open>
  The statements every one of the four operations ends with: send the request, receive
  into its buffer, look at what came back.
\<close>

definition transact :: "'k os \<Rightarrow> int \<Rightarrow> nlmsg \<Rightarrow> (unit, 'k) prog" where
  "transact os sock req =
     andthen (nl_send os sock req) (\<lambda>_.
     andthen (nl_recv os sock req) (\<lambda>req.
       if nlmsg_type (err_hdr req) = NLMSG_ERROR then
         if sint (err_error req) < 0 then
           fail_printf (Error_sending_netlink_request (os_strerror os (sint (- err_error req))))
         else ret ()
       else ret ()))"

text \<open>
  \<open>emits m P\<close>: started in any world, \<open>m\<close> leaves the events recorded so far in place,
  and the events \<open>evs\<close> it adds and the way \<open>r\<close> it ends satisfy \<open>P evs r\<close>.
\<close>

definition emits :: "('a, 'k) prog \<Rightarrow> (event list \<Rightarrow> failure + 'a \<Rightarrow> bool) \<Rightarrow> bool" where
  "emits m P = (\<forall>w. \<exists>evs. trace (snd (m w)) = trace w @ evs \<and> P evs (fst (m w)))"

text \<open>
  A kernel for examples.  Sockets open, messages are sent; the interfaces are those of the
  table \<open>tbl\<close>; every request is answered by an error message carrying \<open>code\<close>, which is
  how rtnetlink acknowledges (the code 0) and rejects (a negative code).  \<open>strerror\<close>
  knows the text for 1 and makes \<open>"Unknown error"\<close> with the number for the others.
\<close>

definition example_os :: "(string \<Rightarrow> nat) \<Rightarrow> 32 word \<Rightarrow> unit os" where
  "example_os tbl code =
     \<lparr>os_socket = (\<lambda>k. (3, k)),
      os_bind = (\<lambda>sock k. (0, k)),
      os_close = (\<lambda>sock k. k),
      os_if_nametoindex = (\<lambda>ifname k. tbl ifname),
      os_sendmsg = (\<lambda>sock nlmsg k. (int (nlmsg_len (hdr nlmsg)), k)),
      os_recvmsg = (\<lambda>sock nlmsg k.
        ((36, \<lparr>err_hdr = \<lparr>nlmsg_len = 36, nlmsg_type = NLMSG_ERROR, nlmsg_flags = 0,
                           nlmsg_seq = 1\<rparr>,
               err_error = code\<rparr>), k)),
      os_strerror = (\<lambda>errnum. if errnum = 1 then ''Operation not permitted''
                              else ''Unknown error '' @ printf_d errnum)\<rparr>"

definition example_world :: "unit world" where
  "example_world = \<lparr>netifs = [], kernel = (), trace = []\<rparr>"

text \<open>
  The events a part of the module adds, together with the way it ends: \<open>opened\<close> for
  \<open>nl_open\<close>, \<open>transacted\<close> for the closing statements of an operation, \<open>switched\<close> for the
  \<open>switch\<close> of the second loop, \<open>bodied\<close> for one pass through its body.
\<close>

definition opened :: "event list \<Rightarrow> failure + int \<Rightarrow> bool" where
  "opened evs r =
     ((\<exists>fd. evs = [Socket fd] \<and> fd < 0 \<and> r = Inl Failed_socket) \<or>
      (\<exists>fd rc. evs = [Socket fd, Bind fd rc] \<and> 0 \<le> fd \<and> rc < 0 \<and> r = Inl Failed_bind) \<or>
      (\<exists>fd rc. evs = [Socket fd, Bind fd rc] \<and> 0 \<le> fd \<and> 0 \<le> rc \<and> r = Inr fd))"

definition transacted :: "'k os \<Rightarrow> int \<Rightarrow> nlmsg \<Rightarrow> event list \<Rightarrow> failure + unit \<Rightarrow> bool" where
  "transacted os sock req evs r =
     ((\<exists>rc. evs = [Sendmsg sock req rc] \<and> to_int rc < 0 \<and> r = Inl Failed_sendmsg) \<or>
      (\<exists>rc rep rc'. evs = [Sendmsg sock req rc, Recvmsg sock rep rc'] \<and> 0 \<le> to_int rc \<and>
         to_int rc' < 0 \<and> r = Inl Failed_recvmsg) \<or>
      (\<exists>rc rep rc'. evs = [Sendmsg sock req rc, Recvmsg sock rep rc'] \<and> 0 \<le> to_int rc \<and>
         0 \<le> to_int rc' \<and> nlmsg_type (err_hdr rep) = NLMSG_ERROR \<and>
         sint (err_error rep) < 0 \<and>
         r = Inl (Error_sending_netlink_request (os_strerror os (sint (- err_error rep))))) \<or>
      (\<exists>rc rep rc'. evs = [Sendmsg sock req rc, Recvmsg sock rep rc'] \<and> 0 \<le> to_int rc \<and>
         0 \<le> to_int rc' \<and>
         \<not> (nlmsg_type (err_hdr rep) = NLMSG_ERROR \<and> sint (err_error rep) < 0) \<and>
         r = Inr ()))"

definition switched :: "'k os \<Rightarrow> int \<Rightarrow> int \<Rightarrow> netif_list \<Rightarrow> event list \<Rightarrow> failure + nat \<Rightarrow> bool" where
  "switched os sock pid i evs r =
     (case nif_type i of
        MOVE \<Rightarrow>
          (evs = [If_nametoindex (nif_dev i) 0] \<and> r = Inl (Error_searching_for (nif_dev i))) \<or>
          (\<exists>idx. idx \<noteq> 0 \<and> evs = [If_nametoindex (nif_dev i) idx] \<and> r = Inr idx)
      | MACVLAN \<Rightarrow>
          (evs = [If_nametoindex (nif_dev i) 0] \<and> r = Inl (Error_searching_for (nif_dev i))) \<or>
          (\<exists>idx tevs e. idx \<noteq> 0 \<and>
             transacted os sock (create_macvlan_req idx (pflask_name pid)) tevs (Inl e) \<and>
             evs = If_nametoindex (nif_dev i) idx # tevs \<and> r = Inl e) \<or>
          (\<exists>idx tevs idx'. idx \<noteq> 0 \<and>
             transacted os sock (create_macvlan_req idx (pflask_name pid)) tevs (Inr ()) \<and>
             evs = If_nametoindex (nif_dev i) idx # tevs
                     @ [If_nametoindex (pflask_name pid) idx'] \<and>
             r = Inr idx')
      | VETH \<Rightarrow>
          (\<exists>tevs e.
             transacted os sock (create_veth_pair_req (nif_dev i) (pflask_name pid))
               tevs (Inl e) \<and>
             evs = tevs \<and> r = Inl e) \<or>
          (\<exists>tevs idx'.
             transacted os sock (create_veth_pair_req (nif_dev i) (pflask_name pid))
               tevs (Inr ()) \<and>
             evs = tevs @ [If_nametoindex (pflask_name pid) idx'] \<and> r = Inr idx'))"

definition bodied :: "'k os \<Rightarrow> int \<Rightarrow> int \<Rightarrow> netif_list \<Rightarrow> event list \<Rightarrow> failure + unit \<Rightarrow> bool" where
  "bodied os sock pid i evs r =
     ((\<exists>e. switched os sock pid i evs (Inl e) \<and> r = Inl e) \<or>
      (\<exists>sevs idx tevs. switched os sock pid i sevs (Inr idx) \<and>
         transacted os sock (move_and_rename_if_req pid idx (nif_name i)) tevs r \<and>
         evs = sevs @ Move_and_rename_if pid idx (nif_name i) # tevs))"

text \<open>
  \<open>keeps_netifs m\<close>: \<open>m\<close> leaves the global \<open>netifs\<close> as it is.
\<close>

definition keeps_netifs :: "('a, 'k) prog \<Rightarrow> bool" where
  "keeps_netifs m = (\<forall>w. netifs (snd (m w)) = netifs w)"

text \<open>
  The message a run has ended with, if it has.  \<open>replies_ok\<close> goes through the events of a
  run that ended this way and looks at every answer \<open>recvmsg\<close> delivered with the message
  kind \<open>NLMSG_ERROR\<close>: one with a negative code is the last event and the run has ended
  with the text for the code negated as an \<open>int\<close>; behind any other one something follows, or the run
  has returned.  \<open>closed_ok\<close> adds that a run that has returned has closed its socket
  last.
\<close>

definition failed :: "failure + 'a \<Rightarrow> failure option" where
  "failed r = (case r of Inl e \<Rightarrow> Some e | Inr x \<Rightarrow> None)"

fun replies_ok :: "'k os \<Rightarrow> event list \<Rightarrow> failure option \<Rightarrow> bool" where
  "replies_ok os [] r = True"
| "replies_ok os (Recvmsg sock rep rc # evs) r =
     ((0 \<le> to_int rc \<and> nlmsg_type (err_hdr rep) = NLMSG_ERROR \<longrightarrow>
         (if sint (err_error rep) < 0
          then evs = [] \<and>
               r = Some (Error_sending_netlink_request (os_strerror os (sint (- err_error rep))))
          else evs \<noteq> [] \<or> r = None)) \<and>
      replies_ok os evs r)"
| "replies_ok os (ev # evs) r = replies_ok os evs r"

definition closed_ok :: "'k os \<Rightarrow> event list \<Rightarrow> failure + unit \<Rightarrow> bool" where
  "closed_ok os evs r =
     (replies_ok os evs (failed r) \<and> evs \<noteq> [] \<and> (r = Inr () \<longrightarrow> (\<exists>sock. last evs = Close sock)))"

text \<open>
  The events of the second loop on the actions \<open>acts\<close>, \<open>drained\<close>.  With no action left
  the loop adds nothing and returns.  Otherwise there is the pass through the body for
  the first action: either it ends the process, and its events are all there is, or it
  returns, and the events of the loop on the remaining actions follow.
\<close>

fun drained :: "'k os \<Rightarrow> int \<Rightarrow> int \<Rightarrow> netif_list list \<Rightarrow> event list \<Rightarrow> failure + unit \<Rightarrow> bool" where
  "drained os sock pid [] evs r = (evs = [] \<and> r = Inr ())"
| "drained os sock pid (i # rest) evs r =
     ((\<exists>e. bodied os sock pid i evs (Inl e) \<and> r = Inl e) \<or>
      (\<exists>bevs evs'. bodied os sock pid i bevs (Inr ()) \<and> drained os sock pid rest evs' r \<and>
         evs = bevs @ evs'))"

text \<open>
  The events of \<open>do_netif\<close> on a queue that holds \<open>acts\<close>, first registered first, \<open>ran\<close>:
  the socket could not be opened or bound, and that is all; or the loop has ended the
  process, and nothing follows its events; or the loop has returned, and the socket is
  closed.
\<close>

definition ran :: "'k os \<Rightarrow> int \<Rightarrow> netif_list list \<Rightarrow> event list \<Rightarrow> failure + unit \<Rightarrow> bool" where
  "ran os pid acts evs r =
     ((\<exists>e. opened evs (Inl e) \<and> r = Inl e) \<or>
      (\<exists>oevs sock devs e. opened oevs (Inr sock) \<and> drained os sock pid acts devs (Inl e) \<and>
         evs = oevs @ devs \<and> r = Inl e) \<or>
      (\<exists>oevs sock devs. opened oevs (Inr sock) \<and> drained os sock pid acts devs (Inr ()) \<and>
         evs = oevs @ devs @ [Close sock] \<and> r = Inr ()))"

section \<open>Properties\<close>

subsection \<open>The store and the alignment macros\<close>

lemma memcpy_apply:
  "memcpy p d m q = (if p \<le> q \<and> q < p + length d then Some (d ! (q - p)) else m q)"
proof (induction d arbitrary: p m)
  case Nil
  then show ?case by auto
next
  case (Cons b bs)
  have "memcpy (Suc p) bs (m(p \<mapsto> b)) q =
      (if Suc p \<le> q \<and> q < Suc p + length bs then Some (bs ! (q - Suc p))
       else (m(p \<mapsto> b)) q)"
    by (rule Cons.IH)
  then show ?case
    by (auto simp add: Suc_diff_le nth_Cons')
qed

lemma dom_memcpy: "dom (memcpy p d m) = dom m \<union> {p ..< p + length d}"
  by (auto simp add: dom_def memcpy_apply)

lemma dom_put_u16: "dom (put_u16 p v m) = dom m \<union> {p ..< p + 2}"
  by (auto simp add: put_u16_def)

lemma unat_byte: "n < 256 \<Longrightarrow> unat (of_nat n :: byte) = n"
  by (simp add: unat_of_nat take_bit_eq_mod)

lemma get_u16_put_u16: "v < 2 ^ 16 \<Longrightarrow> get_u16 (put_u16 p v m) p = Some v"
proof -
  assume v: "v < 2 ^ 16"
  have a: "unat (of_nat (v mod 256) :: byte) = v mod 256"
    by (rule unat_byte) simp
  have "v div 256 < 256" using v by simp
  then have b: "unat (of_nat (v div 256 mod 256) :: byte) = v div 256"
    by (simp add: unat_byte)
  show ?thesis
    by (simp add: get_u16_def put_u16_def a b)
qed

lemma get_u16_cong: "m p = m' p \<Longrightarrow> m (p + 1) = m' (p + 1) \<Longrightarrow> get_u16 m p = get_u16 m' p"
  by (simp add: get_u16_def)

lemma get_u16_put_u16_other:
  "q + 2 \<le> p \<or> p + 2 \<le> q \<Longrightarrow> get_u16 (put_u16 p v m) q = get_u16 m q"
  by (rule get_u16_cong) (auto simp add: put_u16_def)

lemma get_u16_memcpy_other:
  "q + 2 \<le> p \<or> p + length d \<le> q \<Longrightarrow> get_u16 (memcpy p d m) q = get_u16 m q"
  by (rule get_u16_cong) (auto simp add: memcpy_apply)

lemma RTA_LENGTH_eq: "RTA_LENGTH len = 4 + len"
  by (simp add: RTA_LENGTH_def RTA_ALIGN_def sizeof_rtattr_def)

lemma RTA_DATA_eq: "RTA_DATA p = p + 4"
  by (simp add: RTA_DATA_def RTA_LENGTH_eq)

lemma rta_len_rtattr_append:
  "rta_len (rtattr_append m attr d) (NLMSG_TAIL (hdr m)) = Some (RTA_LENGTH (length d) mod 2 ^ 16)"
  by (simp add: rta_len_def rtattr_append_def Let_def RTA_DATA_eq
      get_u16_memcpy_other get_u16_put_u16)

lemma rta_type_rtattr_append:
  "rta_type (rtattr_append m attr d) (NLMSG_TAIL (hdr m)) = Some (attr mod 2 ^ 16)"
  by (simp add: rta_type_def rtattr_append_def Let_def RTA_DATA_eq
      get_u16_memcpy_other get_u16_put_u16_other get_u16_put_u16)

lemma mem_rtattr_append_data:
  "i < length d \<Longrightarrow> mem (rtattr_append m attr d) (RTA_DATA (NLMSG_TAIL (hdr m)) + i) = Some (d ! i)"
  by (simp add: rtattr_append_def Let_def memcpy_apply)

lemma nlmsg_len_rtattr_append:
  "nlmsg_len (hdr (rtattr_append m attr d)) =
     (NLMSG_TAIL (hdr m) + RTA_ALIGN (RTA_LENGTH (length d))) mod 2 ^ 32"
  by (simp add: rtattr_append_def Let_def NLMSG_TAIL_def)

lemma NLMSG_ALIGN_aligned: "n mod 4 = 0 \<Longrightarrow> n < 2 ^ 32 \<Longrightarrow> NLMSG_ALIGN n = n"
proof -
  assume a: "n mod 4 = 0" and b: "n < 2 ^ 32"
  have "n + 3 < 4294967296" using a b by simp presburger
  then have "n + 3 < 2 ^ 32" by simp
  then have "(n + 3) mod 2 ^ 32 = n + 3" by simp
  moreover have "(n + 3) div 4 * 4 = n" using a by presburger
  ultimately show ?thesis by (simp add: NLMSG_ALIGN_def)
qed

lemma RTA_ALIGN_small: "n + 3 < 2 ^ 32 \<Longrightarrow> RTA_ALIGN n = (n + 3) div 4 * 4"
  by (simp add: RTA_ALIGN_def)

lemma dom_rtattr_append:
  "dom (mem (rtattr_append m attr d)) =
     dom (mem m) \<union> {NLMSG_TAIL (hdr m) ..< NLMSG_TAIL (hdr m) + RTA_LENGTH (length d)}"
  by (auto simp add: rtattr_append_def Let_def dom_memcpy dom_put_u16 RTA_DATA_eq RTA_LENGTH_eq)

lemma nlmsg_len_if_up_req: "nlmsg_len (hdr (if_up_req i)) = 32"
  by (simp add: if_up_req_def NLMSG_LENGTH_def NLMSG_HDRLEN_def NLMSG_ALIGN_def
      sizeof_ifinfomsg_def sizeof_nlmsghdr_def)

lemma NLMSG_TAIL_if_up_req: "NLMSG_TAIL (hdr (if_up_req i)) = 32"
  by (simp add: NLMSG_TAIL_def nlmsg_len_if_up_req NLMSG_ALIGN_def)

lemma mem_if_up_req: "mem (if_up_req i) = Map.empty"
  by (simp add: if_up_req_def)

lemma NLMSG_GOOD_SIZE_eq: "NLMSG_GOOD_SIZE = 9216"
  by (simp add: NLMSG_GOOD_SIZE_def sizeof_nlmsg_def sizeof_nlmsghdr_def
      sizeof_ifinfomsg_def sizeof_nlmsgerr_def)

text \<open>
  C2, as the code has it.  \<open>rtattr_append\<close> has no capacity check and no way to fail: it
  writes the attribute header and the payload at the aligned tail whatever the length.
  The bytes it has written all lie inside the \<open>NLMSG_GOOD_SIZE\<close> bytes of the buffer
  exactly when those written before did and the attribute, header and payload, ends at or
  before the capacity.  An attribute that does not fit is written past the end of the
  buffer; keeping within the capacity is left to the caller.
\<close>

theorem rtattr_append_within_capacity:
  "dom (mem (rtattr_append nlmsg attr d)) \<subseteq> {..< NLMSG_GOOD_SIZE} \<longleftrightarrow>
     dom (mem nlmsg) \<subseteq> {..< NLMSG_GOOD_SIZE} \<and>
     NLMSG_TAIL (hdr nlmsg) + RTA_LENGTH (length d) \<le> NLMSG_GOOD_SIZE"
proof -
  have "{NLMSG_TAIL (hdr nlmsg) ..< NLMSG_TAIL (hdr nlmsg) + RTA_LENGTH (length d)}
          \<subseteq> {..< NLMSG_GOOD_SIZE}
        \<longleftrightarrow> NLMSG_TAIL (hdr nlmsg) + RTA_LENGTH (length d) \<le> NLMSG_GOOD_SIZE"
  proof
    assume sub: "{NLMSG_TAIL (hdr nlmsg) ..< NLMSG_TAIL (hdr nlmsg) + RTA_LENGTH (length d)}
          \<subseteq> {..< NLMSG_GOOD_SIZE}"
    have "NLMSG_TAIL (hdr nlmsg) + 3 + length d
            \<in> {NLMSG_TAIL (hdr nlmsg) ..< NLMSG_TAIL (hdr nlmsg) + RTA_LENGTH (length d)}"
      by (simp add: RTA_LENGTH_eq)
    with sub have "NLMSG_TAIL (hdr nlmsg) + 3 + length d < NLMSG_GOOD_SIZE"
      by blast
    then show "NLMSG_TAIL (hdr nlmsg) + RTA_LENGTH (length d) \<le> NLMSG_GOOD_SIZE"
      by (simp add: RTA_LENGTH_eq)
  next
    assume "NLMSG_TAIL (hdr nlmsg) + RTA_LENGTH (length d) \<le> NLMSG_GOOD_SIZE"
    then show "{NLMSG_TAIL (hdr nlmsg) ..< NLMSG_TAIL (hdr nlmsg) + RTA_LENGTH (length d)}
          \<subseteq> {..< NLMSG_GOOD_SIZE}"
      by auto
  qed
  then show ?thesis
    by (simp add: dom_rtattr_append)
qed

theorem rtattr_append_within_capacity_witness:
  "dom (mem (rtattr_append (if_up_req 1) IFLA_IFNAME (string_bytes ''wan'')))
     \<subseteq> {..< NLMSG_GOOD_SIZE}"
  using rtattr_append_within_capacity [of "if_up_req 1" IFLA_IFNAME "string_bytes ''wan''"]
  by (simp add: NLMSG_TAIL_if_up_req RTA_LENGTH_eq NLMSG_GOOD_SIZE_eq string_bytes_def
      mem_if_up_req)

text \<open>
  C2 as stated fails: appended to the 32 bytes of a fresh request, a payload of 9216 bytes
  exceeds the capacity, and \<open>rtattr_append\<close> returns the buffer with a byte stored at
  offset \<open>NLMSG_GOOD_SIZE\<close>, the first one behind the allocation.
\<close>

theorem rtattr_append_no_guard_counterexample:
  "NLMSG_TAIL (hdr (if_up_req 1)) + RTA_ALIGN (RTA_LENGTH (length (replicate 9216 (0 :: byte))))
     > NLMSG_GOOD_SIZE \<and>
   mem (rtattr_append (if_up_req 1) IFLA_IFNAME (replicate 9216 0)) NLMSG_GOOD_SIZE = Some 0"
  by (simp add: NLMSG_TAIL_if_up_req RTA_LENGTH_eq RTA_ALIGN_def NLMSG_GOOD_SIZE_eq
      rtattr_append_def Let_def memcpy_apply RTA_DATA_eq)




lemma NLMSG_ALIGN_mod4: "NLMSG_ALIGN n mod 4 = 0"
  by (simp add: NLMSG_ALIGN_def)

lemma NLMSG_ALIGN_lt: "NLMSG_ALIGN n < 2 ^ 32"
proof -
  have "(n + 3) mod 4294967296 < 4294967296" by simp
  then have "(n + 3) mod 4294967296 div 4 * 4 < 4294967296" by linarith
  then show ?thesis by (simp add: NLMSG_ALIGN_def)
qed

lemma NLMSG_TAIL_mod4: "NLMSG_TAIL h mod 4 = 0"
  by (simp add: NLMSG_TAIL_def NLMSG_ALIGN_mod4)

lemma padded_mod4: "(n + 3) div 4 * 4 mod 4 = (0::nat)"
  by simp

lemma nlmsg_len_append_exact:
  assumes "NLMSG_TAIL (hdr m) + (RTA_LENGTH (length d) + 3) div 4 * 4 < 2 ^ 32"
  shows "nlmsg_len (hdr (rtattr_append m attr d))
           = NLMSG_TAIL (hdr m) + (RTA_LENGTH (length d) + 3) div 4 * 4"
proof -
  have "(RTA_LENGTH (length d) + 3) div 4 * 4 < 4294967296"
    using assms by simp
  then have "(RTA_LENGTH (length d) + 3) div 4 < 1073741824"
    by linarith
  then have "RTA_LENGTH (length d) + 3 < 4294967296"
    by (simp add: div_less_iff_less_mult)
  then have "RTA_LENGTH (length d) + 3 < 2 ^ 32"
    by simp
  then have "RTA_ALIGN (RTA_LENGTH (length d)) = (RTA_LENGTH (length d) + 3) div 4 * 4"
    by (rule RTA_ALIGN_small)
  then show ?thesis
    using assms by (simp add: nlmsg_len_rtattr_append)
qed

lemma NLMSG_TAIL_aligned:
  "nlmsg_len h mod 4 = 0 \<Longrightarrow> nlmsg_len h < 2 ^ 32 \<Longrightarrow> NLMSG_TAIL h = nlmsg_len h"
  by (simp add: NLMSG_TAIL_def NLMSG_ALIGN_aligned)

lemma NLMSG_TAIL_append_exact:
  assumes "NLMSG_TAIL (hdr m) + (RTA_LENGTH (length d) + 3) div 4 * 4 < 2 ^ 32"
  shows "NLMSG_TAIL (hdr (rtattr_append m attr d))
           = NLMSG_TAIL (hdr m) + (RTA_LENGTH (length d) + 3) div 4 * 4"
proof -
  have "(NLMSG_TAIL (hdr m) + (RTA_LENGTH (length d) + 3) div 4 * 4) mod 4 = 0"
    using NLMSG_TAIL_mod4 [of "hdr m"] by presburger
  then show ?thesis
    using assms by (simp add: NLMSG_TAIL_aligned nlmsg_len_append_exact)
qed


lemma rta_len_cong:
  "mem m c = mem m' c \<Longrightarrow> mem m (c + 1) = mem m' (c + 1) \<Longrightarrow> rta_len m c = rta_len m' c"
  unfolding rta_len_def by (rule get_u16_cong)

lemma hdr_rtattr_end_nested: "hdr (rtattr_end_nested m c) = hdr m"
  by (simp add: rtattr_end_nested_def)

lemma mem_rtattr_end_nested_other:
  "q \<noteq> c \<Longrightarrow> q \<noteq> c + 1 \<Longrightarrow> mem (rtattr_end_nested m c) q = mem m q"
  by (simp add: rtattr_end_nested_def put_u16_def)

lemma rta_len_rtattr_end_nested:
  assumes "c \<le> NLMSG_TAIL (hdr m)" and "NLMSG_TAIL (hdr m) - c < 2 ^ 16"
  shows "rta_len (rtattr_end_nested m c) c = Some (NLMSG_TAIL (hdr m) - c)"
proof -
  define v where "v = NLMSG_TAIL (hdr m) - c"
  have "int (NLMSG_TAIL (hdr m)) - int c = int v"
    using assms(1) by (simp add: v_def)
  moreover have "int v mod 2 ^ 16 = int v"
    using assms(2) by (simp add: v_def)
  ultimately have "nat ((int (NLMSG_TAIL (hdr m)) - int c) mod 2 ^ 16) = v"
    by simp
  then have "mem (rtattr_end_nested m c) = put_u16 c v (mem m)"
    by (simp add: rtattr_end_nested_def)
  moreover have "get_u16 (put_u16 c v (mem m)) c = Some v"
    using assms(2) by (intro get_u16_put_u16) (simp add: v_def)
  ultimately show ?thesis
    by (simp add: rta_len_def v_def)
qed

subsection \<open>Nested attributes\<close>

lemma padded_sizes_mod4: "padded_size c mod 4 = 0" "padded_sizes cs mod 4 = 0"
  by (induction c and cs rule: padded_size_padded_sizes.induct)
     (simp_all add: RTA_LENGTH_eq, presburger)












lemma append_step:
  assumes "NLMSG_TAIL (hdr m) = t" and "nlmsg_len (hdr m) = t"
    and "t + (RTA_LENGTH (length d) + 3) div 4 * 4 = t'" and "t' < 2 ^ 32"
  shows "NLMSG_TAIL (hdr (rtattr_append m attr d)) = t' \<and>
         nlmsg_len (hdr (rtattr_append m attr d)) = t'"
  using assms NLMSG_TAIL_append_exact [of m d attr] nlmsg_len_append_exact [of m d attr]
  by simp




subsection \<open>The requests of \<open>create_veth_pair\<close> and \<open>create_macvlan\<close>\<close>

lemma mem_rtattr_append_other:
  "q < NLMSG_TAIL (hdr m) \<or> NLMSG_TAIL (hdr m) + RTA_LENGTH (length d) \<le> q \<Longrightarrow>
     mem (rtattr_append m attr d) q = mem m q"
  by (auto simp add: rtattr_append_def Let_def memcpy_apply put_u16_def RTA_DATA_eq RTA_LENGTH_eq)

lemma rta_type_cong:
  "mem m (c + 2) = mem m' (c + 2) \<Longrightarrow> mem m (c + 3) = mem m' (c + 3) \<Longrightarrow>
     rta_type m c = rta_type m' c"
proof -
  assume a: "mem m (c + 2) = mem m' (c + 2)" and b: "mem m (c + 3) = mem m' (c + 3)"
  have "c + 2 + 1 = c + 3" by simp
  with a b show ?thesis
    unfolding rta_type_def by (intro get_u16_cong) (simp_all only:)
qed

lemma rta_len_append_other:
  "c + 2 \<le> NLMSG_TAIL (hdr m) \<Longrightarrow> rta_len (rtattr_append m attr d) c = rta_len m c"
  by (rule rta_len_cong) (simp_all add: mem_rtattr_append_other)

lemma rta_type_append_other:
  "c + 4 \<le> NLMSG_TAIL (hdr m) \<Longrightarrow> rta_type (rtattr_append m attr d) c = rta_type m c"
  by (rule rta_type_cong) (simp_all add: mem_rtattr_append_other)

lemma rta_len_end_nested_other:
  "c + 2 \<le> c' \<or> c' + 2 \<le> c \<Longrightarrow> rta_len (rtattr_end_nested m c') c = rta_len m c"
  by (rule rta_len_cong) (auto simp add: mem_rtattr_end_nested_other)

lemma rta_type_end_nested_other:
  "c + 4 \<le> c' \<or> c' \<le> c \<Longrightarrow> rta_type (rtattr_end_nested m c') c = rta_type m c"
  by (rule rta_type_cong) (auto simp add: mem_rtattr_end_nested_other)

lemma rta_payload_cong:
  assumes "rta_len m c = rta_len m' c"
    and "\<And>q. c + 4 \<le> q \<Longrightarrow> mem m q = mem m' q"
  shows "rta_payload m c = rta_payload m' c"
  using assms by (auto simp add: rta_payload_def RTA_DATA_eq split: option.splits)

lemma rta_payload_rtattr_append:
  assumes "RTA_LENGTH (length d) < 2 ^ 16"
  shows "rta_payload (rtattr_append m attr d) (NLMSG_TAIL (hdr m)) = map Some d"
proof -
  let ?p = "NLMSG_TAIL (hdr m)"
  let ?m = "rtattr_append m attr d"
  have len: "rta_len ?m ?p = Some (4 + length d)"
    using rta_len_rtattr_append [of m attr d] assms by (simp add: RTA_LENGTH_eq)
  have bytes: "\<forall>i < length d. mem ?m (?p + 4 + i) = Some (d ! i)"
    using mem_rtattr_append_data [of _ d m attr] by (simp add: RTA_DATA_eq)
  have "map (mem ?m) [?p + 4 ..< ?p + 4 + length d] = map Some d"
    by (rule nth_equalityI) (simp_all add: bytes)
  then show ?thesis
    by (simp add: rta_payload_def len RTA_DATA_eq RTA_PAYLOAD_def RTA_LENGTH_eq)
qed

lemma length_string_bytes: "length (string_bytes s) = strlen s + 1"
  by (simp add: string_bytes_def strlen_def)

lemma mem_append_above:
  assumes "\<forall>q \<ge> NLMSG_TAIL (hdr m). mem m q = None"
    and "NLMSG_TAIL (hdr m) + (RTA_LENGTH (length d) + 3) div 4 * 4 \<le> q"
  shows "mem (rtattr_append m attr d) q = None"
proof -
  have "RTA_LENGTH (length d) \<le> (RTA_LENGTH (length d) + 3) div 4 * 4"
    by presburger
  with assms(2) have "NLMSG_TAIL (hdr m) + RTA_LENGTH (length d) \<le> q"
    by linarith
  then show ?thesis
    using assms(1) by (simp add: mem_rtattr_append_other)
qed

lemma veth_layout:
  fixes name_out name_in :: string
  defines "L \<equiv> strlen name_in + 1"
  defines "n \<equiv> (RTA_LENGTH L + 3) div 4 * 4"
  assumes fits: "72 + RTA_LENGTH (strlen name_in + 1) \<le> NLMSG_GOOD_SIZE"
  shows "rta_type (create_veth_pair_req name_out name_in) 32 = Some IFLA_LINKINFO"
    and "rta_len (create_veth_pair_req name_out name_in) 32 = Some (40 + n)"
    and "rta_type (create_veth_pair_req name_out name_in) 36 = Some IFLA_INFO_KIND"
    and "rta_len (create_veth_pair_req name_out name_in) 36 = Some 9"
    and "rta_type (create_veth_pair_req name_out name_in) 48 = Some IFLA_INFO_DATA"
    and "rta_len (create_veth_pair_req name_out name_in) 48 = Some (24 + n)"
    and "rta_type (create_veth_pair_req name_out name_in) 52 = Some VETH_INFO_PEER"
    and "rta_len (create_veth_pair_req name_out name_in) 52 = Some (20 + n)"
    and "\<forall>q. 56 \<le> q \<and> q < 72 \<longrightarrow> mem (create_veth_pair_req name_out name_in) q = None"
    and "rta_type (create_veth_pair_req name_out name_in) 72 = Some IFLA_IFNAME"
    and "rta_len (create_veth_pair_req name_out name_in) 72 = Some (RTA_LENGTH L)"
    and "rta_payload (create_veth_pair_req name_out name_in) 72 = map Some (string_bytes name_in)"
proof -
  define m0 where "m0 =
     \<lparr>hdr = \<lparr>nlmsg_len = NLMSG_LENGTH sizeof_ifinfomsg,
             nlmsg_type = RTM_NEWLINK,
             nlmsg_flags = NLM_F_REQUEST OR NLM_F_CREATE OR NLM_F_EXCL OR NLM_F_ACK,
             nlmsg_seq = 1\<rparr>,
      ifi = \<lparr>ifi_family = Some AF_UNSPEC, ifi_index = None, ifi_flags = None,
             ifi_change = None\<rparr>,
      mem = Map.empty\<rparr>"
  define m1 where "m1 = rtattr_append m0 IFLA_LINKINFO []"
  define m2 where "m2 = rtattr_append m1 IFLA_INFO_KIND (string_bytes ''veth'')"
  define m3 where "m3 = rtattr_append m2 IFLA_INFO_DATA []"
  define m4 where "m4 = rtattr_append m3 VETH_INFO_PEER []"
  define m5 where "m5 = m4\<lparr>hdr := (hdr m4)\<lparr>nlmsg_len :=
                  (nlmsg_len (hdr m4) + sizeof_ifinfomsg) mod 2 ^ 32\<rparr>\<rparr>"
  define m6 where "m6 = rtattr_append m5 IFLA_IFNAME (string_bytes name_in)"
  define m7 where "m7 = rtattr_end_nested m6 52"
  define m8 where "m8 = rtattr_end_nested m7 48"
  define m9 where "m9 = rtattr_end_nested m8 32"
  define m10 where "m10 = rtattr_append m9 IFLA_IFNAME (string_bytes name_out)"
  have len_in: "length (string_bytes name_in) = L"
    by (simp add: L_def length_string_bytes)
  have len_veth: "length (string_bytes ''veth'') = 5"
    by (simp add: string_bytes_def)
  have lL: "RTA_LENGTH L \<le> n" "n mod 4 = 0"
    unfolding n_def by presburger+
  have n_small: "72 + n < 9220"
  proof -
    have "72 + RTA_LENGTH L \<le> 9216"
      using fits by (simp add: L_def NLMSG_GOOD_SIZE_eq)
    then show ?thesis unfolding n_def by presburger
  qed
  have l0: "nlmsg_len (hdr m0) = 32"
    by (simp add: m0_def NLMSG_LENGTH_def NLMSG_HDRLEN_def NLMSG_ALIGN_def
        sizeof_ifinfomsg_def sizeof_nlmsghdr_def)
  have t0: "NLMSG_TAIL (hdr m0) = 32"
    by (simp add: NLMSG_TAIL_def l0 NLMSG_ALIGN_def)
  have e0: "\<forall>q \<ge> NLMSG_TAIL (hdr m0). mem m0 q = None"
    by (simp add: m0_def)
  have t1: "NLMSG_TAIL (hdr m1) = 36 \<and> nlmsg_len (hdr m1) = 36"
    unfolding m1_def by (rule append_step [OF t0 l0]) (simp_all add: RTA_LENGTH_eq)
  have t2: "NLMSG_TAIL (hdr m2) = 48 \<and> nlmsg_len (hdr m2) = 48"
    unfolding m2_def by (rule append_step [of _ 36]) (simp_all add: t1 RTA_LENGTH_eq len_veth)
  have t3: "NLMSG_TAIL (hdr m3) = 52 \<and> nlmsg_len (hdr m3) = 52"
    unfolding m3_def by (rule append_step [of _ 48]) (simp_all add: t2 RTA_LENGTH_eq)
  have t4: "NLMSG_TAIL (hdr m4) = 56 \<and> nlmsg_len (hdr m4) = 56"
    unfolding m4_def by (rule append_step [of _ 52]) (simp_all add: t3 RTA_LENGTH_eq)
  have l5: "nlmsg_len (hdr m5) = 72"
    by (simp add: m5_def t4 sizeof_ifinfomsg_def)
  have t5: "NLMSG_TAIL (hdr m5) = 72"
    by (simp add: NLMSG_TAIL_def l5 NLMSG_ALIGN_def)
  have mem5: "mem m5 = mem m4"
    by (simp add: m5_def)
  have t6: "NLMSG_TAIL (hdr m6) = 72 + n \<and> nlmsg_len (hdr m6) = 72 + n"
    unfolding m6_def using n_small
    by (intro append_step [OF t5 l5]) (simp_all add: len_in n_def)
  have t7: "NLMSG_TAIL (hdr m7) = 72 + n"
    by (simp add: m7_def hdr_rtattr_end_nested t6)
  have t8: "NLMSG_TAIL (hdr m8) = 72 + n"
    by (simp add: m8_def hdr_rtattr_end_nested t7)
  have t9: "NLMSG_TAIL (hdr m9) = 72 + n"
    by (simp add: m9_def hdr_rtattr_end_nested t8)
  have req: "create_veth_pair_req name_out name_in = m10"
    unfolding create_veth_pair_req_def rtattr_start_nested_def Let_def prod.case
      m0_def [symmetric] t0 m1_def [symmetric] m2_def [symmetric] conjunct1 [OF t2]
      m3_def [symmetric] conjunct1 [OF t3] m4_def [symmetric] m5_def [symmetric]
      m6_def [symmetric] m7_def [symmetric] m8_def [symmetric] m9_def [symmetric]
      m10_def [symmetric]
    by (rule refl)
  have e1: "\<forall>q \<ge> NLMSG_TAIL (hdr m1). mem m1 q = None"
    unfolding m1_def using e0 by (auto intro!: mem_append_above simp add: t1 [unfolded m1_def] t0 RTA_LENGTH_eq)
  have e2: "\<forall>q \<ge> NLMSG_TAIL (hdr m2). mem m2 q = None"
    unfolding m2_def using e1
    by (auto intro!: mem_append_above simp add: t2 [unfolded m2_def] t1 RTA_LENGTH_eq len_veth)
  have e3: "\<forall>q \<ge> NLMSG_TAIL (hdr m3). mem m3 q = None"
    unfolding m3_def using e2
    by (auto intro!: mem_append_above simp add: t3 [unfolded m3_def] t2 RTA_LENGTH_eq)
  have e4: "\<forall>q \<ge> NLMSG_TAIL (hdr m4). mem m4 q = None"
    unfolding m4_def using e3
    by (auto intro!: mem_append_above simp add: t4 [unfolded m4_def] t3 RTA_LENGTH_eq)
  have F: "mem m10 q = mem m6 q"
    if "q < 72 + n" "q \<noteq> 32" "q \<noteq> 33" "q \<noteq> 48" "q \<noteq> 49" "q \<noteq> 52" "q \<noteq> 53" for q
    using that
    by (simp add: m10_def m9_def m8_def m7_def mem_rtattr_append_other
        mem_rtattr_end_nested_other hdr_rtattr_end_nested t6)
  have G5: "mem m6 q = mem m4 q" if "q < 72" for q
    using that by (simp add: m6_def mem_rtattr_append_other t5 mem5)
  have G4: "mem m4 q = mem m3 q" if "q < 52" for q
    using that by (simp add: m4_def mem_rtattr_append_other t3)
  have G3: "mem m3 q = mem m2 q" if "q < 48" for q
    using that by (simp add: m3_def mem_rtattr_append_other t2)
  have G2: "mem m2 q = mem m1 q" if "q < 36" for q
    using that by (simp add: m2_def mem_rtattr_append_other t1)
  have B1: "mem m10 q = mem m1 q" if "q = 34 \<or> q = 35" for q
    using that by (auto simp add: F G5 G4 G3 G2)
  have B2: "mem m10 q = mem m2 q" if "36 \<le> q" "q < 48" for q
    using that by (simp add: F G5 G4 G3)
  have B3: "mem m10 q = mem m3 q" if "q = 50 \<or> q = 51" for q
    using that by (auto simp add: F G5 G4)
  have B4: "mem m10 q = mem m4 q" if "q = 54 \<or> q = 55 \<or> (56 \<le> q \<and> q < 72)" for q
    using that by (auto simp add: F G5)
  have B6: "mem m10 q = mem m6 q" if "72 \<le> q" "q < 72 + n" for q
    using that by (simp add: F)
  have ty32: "rta_type m10 32 = Some IFLA_LINKINFO"
  proof -
    have "rta_type m10 32 = rta_type m1 32"
      by (rule rta_type_cong) (simp_all add: B1)
    also have "\<dots> = Some IFLA_LINKINFO"
      using rta_type_rtattr_append [of m0 IFLA_LINKINFO "[]"]
      by (simp add: m1_def t0 IFLA_LINKINFO_def)
    finally show ?thesis .
  qed
  have ty36: "rta_type m10 36 = Some IFLA_INFO_KIND"
  proof -
    have "rta_type m10 36 = rta_type m2 36"
      by (rule rta_type_cong) (simp_all add: B2)
    also have "\<dots> = Some IFLA_INFO_KIND"
      using rta_type_rtattr_append [of m1 IFLA_INFO_KIND "string_bytes ''veth''"]
      by (simp add: m2_def t1 IFLA_INFO_KIND_def)
    finally show ?thesis .
  qed
  have ln36: "rta_len m10 36 = Some 9"
  proof -
    have "rta_len m10 36 = rta_len m2 36"
      by (rule rta_len_cong) (simp_all add: B2)
    also have "\<dots> = Some 9"
      using rta_len_rtattr_append [of m1 IFLA_INFO_KIND "string_bytes ''veth''"]
      by (simp add: m2_def t1 len_veth RTA_LENGTH_eq)
    finally show ?thesis .
  qed
  have ty48: "rta_type m10 48 = Some IFLA_INFO_DATA"
  proof -
    have "rta_type m10 48 = rta_type m3 48"
      by (rule rta_type_cong) (simp_all add: B3)
    also have "\<dots> = Some IFLA_INFO_DATA"
      using rta_type_rtattr_append [of m2 IFLA_INFO_DATA "[]"]
      by (simp add: m3_def t2 IFLA_INFO_DATA_def)
    finally show ?thesis .
  qed
  have ty52: "rta_type m10 52 = Some VETH_INFO_PEER"
  proof -
    have "rta_type m10 52 = rta_type m4 52"
      by (rule rta_type_cong) (simp_all add: B4)
    also have "\<dots> = Some VETH_INFO_PEER"
      using rta_type_rtattr_append [of m3 VETH_INFO_PEER "[]"]
      by (simp add: m4_def t3 VETH_INFO_PEER_def)
    finally show ?thesis .
  qed
  have body: "\<forall>q. 56 \<le> q \<and> q < 72 \<longrightarrow> mem m10 q = None"
    using e4 by (simp add: B4 t4)
  have short: "RTA_LENGTH L < 2 ^ 16"
    using lL(1) n_small by simp
  have ty72: "rta_type m10 72 = Some IFLA_IFNAME"
  proof -
    have "rta_type m10 72 = rta_type m6 72"
      using lL(1) by (intro rta_type_cong B6) (simp_all add: RTA_LENGTH_eq)
    also have "\<dots> = Some IFLA_IFNAME"
      using rta_type_rtattr_append [of m5 IFLA_IFNAME "string_bytes name_in"]
      by (simp add: m6_def t5 IFLA_IFNAME_def)
    finally show ?thesis .
  qed
  have ln72: "rta_len m10 72 = Some (RTA_LENGTH L)"
  proof -
    have "rta_len m10 72 = rta_len m6 72"
      using lL(1) by (intro rta_len_cong B6) (simp_all add: RTA_LENGTH_eq)
    also have "\<dots> = Some (RTA_LENGTH L)"
      using rta_len_rtattr_append [of m5 IFLA_IFNAME "string_bytes name_in"] short
      by (simp add: m6_def t5 len_in)
    finally show ?thesis .
  qed
  have pl72: "rta_payload m10 72 = map Some (string_bytes name_in)"
  proof -
    have "rta_payload m6 72 = map Some (string_bytes name_in)"
      using rta_payload_rtattr_append [of "string_bytes name_in" m5 IFLA_IFNAME] short
      by (simp add: m6_def t5 len_in)
    moreover have "rta_len m6 72 = Some (RTA_LENGTH L)"
      using rta_len_rtattr_append [of m5 IFLA_IFNAME "string_bytes name_in"] short
      by (simp add: m6_def t5 len_in)
    moreover have "map (mem m10) [76 ..< 76 + L] = map (mem m6) [76 ..< 76 + L]"
      using lL(1) by (intro map_cong refl B6) (simp_all add: RTA_LENGTH_eq)
    ultimately show ?thesis
      by (simp add: rta_payload_def ln72 RTA_DATA_eq RTA_PAYLOAD_def RTA_LENGTH_eq)
  qed
  have ln52: "rta_len m10 52 = Some (20 + n)"
  proof -
    have "rta_len m10 52 = rta_len m7 52"
      by (simp add: m10_def m9_def m8_def rta_len_append_other rta_len_end_nested_other
          hdr_rtattr_end_nested t7)
    also have "\<dots> = Some (20 + n)"
      using rta_len_rtattr_end_nested [of 52 m6] n_small by (simp add: m7_def t6)
    finally show ?thesis .
  qed
  have ln48: "rta_len m10 48 = Some (24 + n)"
  proof -
    have "rta_len m10 48 = rta_len m8 48"
      by (simp add: m10_def m9_def rta_len_append_other rta_len_end_nested_other
          hdr_rtattr_end_nested t8)
    also have "\<dots> = Some (24 + n)"
      using rta_len_rtattr_end_nested [of 48 m7] n_small by (simp add: m8_def t7)
    finally show ?thesis .
  qed
  have ln32: "rta_len m10 32 = Some (40 + n)"
  proof -
    have "rta_len m10 32 = rta_len m9 32"
      by (simp add: m10_def rta_len_append_other t9)
    also have "\<dots> = Some (40 + n)"
      using rta_len_rtattr_end_nested [of 32 m8] n_small by (simp add: m9_def t8)
    finally show ?thesis .
  qed
  show "rta_type (create_veth_pair_req name_out name_in) 32 = Some IFLA_LINKINFO"
    and "rta_len (create_veth_pair_req name_out name_in) 32 = Some (40 + n)"
    and "rta_type (create_veth_pair_req name_out name_in) 36 = Some IFLA_INFO_KIND"
    and "rta_len (create_veth_pair_req name_out name_in) 36 = Some 9"
    and "rta_type (create_veth_pair_req name_out name_in) 48 = Some IFLA_INFO_DATA"
    and "rta_len (create_veth_pair_req name_out name_in) 48 = Some (24 + n)"
    and "rta_type (create_veth_pair_req name_out name_in) 52 = Some VETH_INFO_PEER"
    and "rta_len (create_veth_pair_req name_out name_in) 52 = Some (20 + n)"
    and "\<forall>q. 56 \<le> q \<and> q < 72 \<longrightarrow> mem (create_veth_pair_req name_out name_in) q = None"
    and "rta_type (create_veth_pair_req name_out name_in) 72 = Some IFLA_IFNAME"
    and "rta_len (create_veth_pair_req name_out name_in) 72 = Some (RTA_LENGTH L)"
    and "rta_payload (create_veth_pair_req name_out name_in) 72 = map Some (string_bytes name_in)"
    unfolding req
    by (rule ty32 ln32 ty36 ln36 ty48 ln48 ty52 ln52 body ty72 ln72 pl72)+
qed

lemma macvlan_layout:
  shows "rta_type (create_macvlan_req master name) 32 = Some IFLA_LINKINFO"
    and "rta_len (create_macvlan_req master name) 32 = Some 16"
    and "rta_type (create_macvlan_req master name) 36 = Some IFLA_INFO_KIND"
    and "rta_len (create_macvlan_req master name) 36 = Some 12"
    and "rta_type (create_macvlan_req master name) 48 = Some IFLA_LINK"
proof -
  define m0 where "m0 =
     \<lparr>hdr = \<lparr>nlmsg_len = NLMSG_LENGTH sizeof_ifinfomsg,
             nlmsg_type = RTM_NEWLINK,
             nlmsg_flags = NLM_F_REQUEST OR NLM_F_CREATE OR NLM_F_EXCL OR NLM_F_ACK,
             nlmsg_seq = 1\<rparr>,
      ifi = \<lparr>ifi_family = Some AF_UNSPEC, ifi_index = None, ifi_flags = None,
             ifi_change = None\<rparr>,
      mem = Map.empty\<rparr>"
  define m1 where "m1 = rtattr_append m0 IFLA_LINKINFO []"
  define m2 where "m2 = rtattr_append m1 IFLA_INFO_KIND (string_bytes ''macvlan'')"
  define m3 where "m3 = rtattr_end_nested m2 32"
  define m4 where "m4 = rtattr_append m3 IFLA_LINK (int_bytes (int master))"
  define m5 where "m5 = rtattr_append m4 IFLA_IFNAME (string_bytes name)"
  have len_kind: "length (string_bytes ''macvlan'') = 8"
    by (simp add: string_bytes_def)
  have len_int: "length (int_bytes (int master)) = 4"
    by (simp add: int_bytes_def sizeof_int_def)
  have l0: "nlmsg_len (hdr m0) = 32"
    by (simp add: m0_def NLMSG_LENGTH_def NLMSG_HDRLEN_def NLMSG_ALIGN_def
        sizeof_ifinfomsg_def sizeof_nlmsghdr_def)
  have t0: "NLMSG_TAIL (hdr m0) = 32"
    by (simp add: NLMSG_TAIL_def l0 NLMSG_ALIGN_def)
  have t1: "NLMSG_TAIL (hdr m1) = 36 \<and> nlmsg_len (hdr m1) = 36"
    unfolding m1_def by (rule append_step [OF t0 l0]) (simp_all add: RTA_LENGTH_eq)
  have t2: "NLMSG_TAIL (hdr m2) = 48 \<and> nlmsg_len (hdr m2) = 48"
    unfolding m2_def by (rule append_step [of _ 36]) (simp_all add: t1 RTA_LENGTH_eq len_kind)
  have t3: "NLMSG_TAIL (hdr m3) = 48 \<and> nlmsg_len (hdr m3) = 48"
    by (simp add: m3_def hdr_rtattr_end_nested t2)
  have t4: "NLMSG_TAIL (hdr m4) = 56 \<and> nlmsg_len (hdr m4) = 56"
    unfolding m4_def by (rule append_step [of _ 48]) (simp_all add: t3 RTA_LENGTH_eq len_int)
  have req: "create_macvlan_req master name = m5"
    unfolding create_macvlan_req_def rtattr_start_nested_def Let_def prod.case
      m0_def [symmetric] t0 m1_def [symmetric] m2_def [symmetric] m3_def [symmetric]
      m4_def [symmetric] m5_def [symmetric]
    by (rule refl)
  have T5: "rta_type m5 c = rta_type m4 c" if "c + 4 \<le> 56" for c
    using that by (simp add: m5_def rta_type_append_other t4)
  have T4: "rta_type m4 c = rta_type m3 c" if "c + 4 \<le> 48" for c
    using that by (simp add: m4_def rta_type_append_other t3)
  have T3: "rta_type m3 c = rta_type m2 c" if "32 \<le> c" for c
    using that by (simp add: m3_def rta_type_end_nested_other)
  have T2: "rta_type m2 c = rta_type m1 c" if "c + 4 \<le> 36" for c
    using that by (simp add: m2_def rta_type_append_other t1)
  have L5: "rta_len m5 c = rta_len m4 c" if "c + 2 \<le> 56" for c
    using that by (simp add: m5_def rta_len_append_other t4)
  have L4: "rta_len m4 c = rta_len m3 c" if "c + 2 \<le> 48" for c
    using that by (simp add: m4_def rta_len_append_other t3)
  have L3: "rta_len m3 c = rta_len m2 c" if "34 \<le> c" for c
    using that by (simp add: m3_def rta_len_end_nested_other)
  have ty32: "rta_type m5 32 = Some IFLA_LINKINFO"
  proof -
    have "rta_type m5 32 = rta_type m1 32"
      by (simp add: T5 T4 T3 T2)
    also have "\<dots> = Some IFLA_LINKINFO"
      using rta_type_rtattr_append [of m0 IFLA_LINKINFO "[]"]
      by (simp add: m1_def t0 IFLA_LINKINFO_def)
    finally show ?thesis .
  qed
  have ln32: "rta_len m5 32 = Some 16"
  proof -
    have "rta_len m5 32 = rta_len m3 32"
      by (simp add: L5 L4)
    also have "\<dots> = Some 16"
      using rta_len_rtattr_end_nested [of 32 m2] by (simp add: m3_def t2)
    finally show ?thesis .
  qed
  have ty36: "rta_type m5 36 = Some IFLA_INFO_KIND"
  proof -
    have "rta_type m5 36 = rta_type m2 36"
      by (simp add: T5 T4 T3)
    also have "\<dots> = Some IFLA_INFO_KIND"
      using rta_type_rtattr_append [of m1 IFLA_INFO_KIND "string_bytes ''macvlan''"]
      by (simp add: m2_def t1 IFLA_INFO_KIND_def)
    finally show ?thesis .
  qed
  have ln36: "rta_len m5 36 = Some 12"
  proof -
    have "rta_len m5 36 = rta_len m2 36"
      by (simp add: L5 L4 L3)
    also have "\<dots> = Some 12"
      using rta_len_rtattr_append [of m1 IFLA_INFO_KIND "string_bytes ''macvlan''"]
      by (simp add: m2_def t1 len_kind RTA_LENGTH_eq)
    finally show ?thesis .
  qed
  have ty48: "rta_type m5 48 = Some IFLA_LINK"
  proof -
    have "rta_type m5 48 = rta_type m4 48"
      by (simp add: T5)
    also have "\<dots> = Some IFLA_LINK"
      using rta_type_rtattr_append [of m3 IFLA_LINK "int_bytes (int master)"]
      by (simp add: m4_def t3 IFLA_LINK_def)
    finally show ?thesis .
  qed
  show "rta_type (create_macvlan_req master name) 32 = Some IFLA_LINKINFO"
    and "rta_len (create_macvlan_req master name) 32 = Some 16"
    and "rta_type (create_macvlan_req master name) 36 = Some IFLA_INFO_KIND"
    and "rta_len (create_macvlan_req master name) 36 = Some 12"
    and "rta_type (create_macvlan_req master name) 48 = Some IFLA_LINK"
    unfolding req by (rule ty32 ln32 ty36 ln36 ty48)+
qed

text \<open>
  The transient name \<open>do_netif\<close> passes to \<open>create_veth_pair\<close> is short: for a process id
  in the range of \<open>int\<close> its attribute lies within the buffer.
\<close>

lemma length_dec: "n < 10 ^ k \<Longrightarrow> 0 < k \<Longrightarrow> length (dec n) \<le> k"
proof (induction n arbitrary: k rule: dec.induct)
  case (1 n)
  show ?case
  proof (cases "n < 10")
    case True
    then have "dec n = [char_of (48 + n)]"
      by (subst dec.simps) simp
    with "1.prems" show ?thesis by simp
  next
    case False
    then have d: "dec n = dec (n div 10) @ [char_of (48 + n mod 10)]"
      by (subst dec.simps) simp
    from False "1.prems" have k: "1 < k"
      by (cases "k = 1") auto
    then obtain j where j: "k = Suc j" "0 < j"
      by (cases k) auto
    from "1.prems"(1) have "n div 10 < 10 ^ j"
      by (simp add: j div_less_iff_less_mult mult.commute)
    with False j have "length (dec (n div 10)) \<le> j"
      by (intro "1.IH") simp_all
    with d j show ?thesis by simp
  qed
qed

lemma strlen_le: "strlen s \<le> length s"
  by (simp add: strlen_def length_takeWhile_le)

lemma pflask_name_fits:
  assumes "- (2 ^ 31) \<le> pid" and "pid < 2 ^ 31"
  shows "72 + RTA_LENGTH (strlen (pflask_name pid) + 1) \<le> NLMSG_GOOD_SIZE"
proof -
  have "nat \<bar>pid\<bar> < 10 ^ 10"
    using assms by simp
  then have "length (dec (nat \<bar>pid\<bar>)) \<le> 10"
    by (rule length_dec) simp
  then have "length (printf_d pid) \<le> 11"
    by (auto simp add: printf_d_def abs_if split: if_splits)
  then have "length (pflask_name pid) \<le> 18"
    by (simp add: pflask_name_def)
  with strlen_le [of "pflask_name pid"] have "strlen (pflask_name pid) \<le> 18"
    by linarith
  then show ?thesis
    by (simp add: RTA_LENGTH_eq NLMSG_GOOD_SIZE_eq)
qed

text \<open>
  C5.  In the request of \<open>create_veth_pair\<close> the attributes start at offset 32, behind the
  header and the link-info body.  \<open>IFLA_LINKINFO\<close> stands at 32; inside it, behind the
  kind attribute at 36, \<open>IFLA_INFO_DATA\<close> stands at 48; inside that, \<open>VETH_INFO_PEER\<close>
  stands at 52.  The \<open>sizeof(struct ifinfomsg)\<close> bytes behind the peer's attribute header
  are reserved and never written; the peer's \<open>IFLA_IFNAME\<close> attribute follows them and
  carries \<open>name_in\<close> with its terminator.  The length written back into the peer attribute
  is its header, the embedded body and the padded name attribute, and the two enclosing
  attributes end where the peer ends.  In the request of \<open>create_macvlan\<close>
  \<open>IFLA_LINKINFO\<close> holds the kind attribute alone.  The name is taken short enough for
  its attribute to lie within the buffer, as the transient name is
  (\<open>pflask_name_fits\<close>).
\<close>

theorem create_veth_pair_peer_record:
  assumes fits: "72 + RTA_LENGTH (strlen name_in + 1) \<le> NLMSG_GOOD_SIZE"
  shows
    "rta_type (create_veth_pair_req name_out name_in) 32 = Some IFLA_LINKINFO \<and>
     rta_type (create_veth_pair_req name_out name_in) 48 = Some IFLA_INFO_DATA \<and>
     rta_type (create_veth_pair_req name_out name_in) 52 = Some VETH_INFO_PEER \<and>
     (\<forall>q. 52 + sizeof_rtattr \<le> q \<and> q < 52 + sizeof_rtattr + sizeof_ifinfomsg \<longrightarrow>
        mem (create_veth_pair_req name_out name_in) q = None) \<and>
     rta_type (create_veth_pair_req name_out name_in) (52 + sizeof_rtattr + sizeof_ifinfomsg)
       = Some IFLA_IFNAME \<and>
     rta_len (create_veth_pair_req name_out name_in) (52 + sizeof_rtattr + sizeof_ifinfomsg)
       = Some (RTA_LENGTH (strlen name_in + 1)) \<and>
     rta_payload (create_veth_pair_req name_out name_in) (52 + sizeof_rtattr + sizeof_ifinfomsg)
       = map Some (string_bytes name_in) \<and>
     rta_len (create_veth_pair_req name_out name_in) 52
       = Some (sizeof_rtattr + sizeof_ifinfomsg + RTA_ALIGN (RTA_LENGTH (strlen name_in + 1))) \<and>
     rta_len (create_veth_pair_req name_out name_in) 48
       = Some (sizeof_rtattr + (sizeof_rtattr + sizeof_ifinfomsg
                 + RTA_ALIGN (RTA_LENGTH (strlen name_in + 1)))) \<and>
     rta_len (create_veth_pair_req name_out name_in) 32
       = Some (48 - 32 + (sizeof_rtattr + (sizeof_rtattr + sizeof_ifinfomsg
                 + RTA_ALIGN (RTA_LENGTH (strlen name_in + 1))))) \<and>
     rta_type (create_macvlan_req master name) 32 = Some IFLA_LINKINFO \<and>
     rta_len (create_macvlan_req master name) 32
       = Some (sizeof_rtattr + RTA_ALIGN (RTA_LENGTH (strlen ''macvlan'' + 1))) \<and>
     rta_type (create_macvlan_req master name) (32 + sizeof_rtattr) = Some IFLA_INFO_KIND \<and>
     rta_len (create_macvlan_req master name) (32 + sizeof_rtattr)
       = Some (RTA_LENGTH (strlen ''macvlan'' + 1))"
proof -
  have "RTA_LENGTH (strlen name_in + 1) + 3 < 2 ^ 32"
    using fits by (simp add: NLMSG_GOOD_SIZE_eq)
  then have al: "RTA_ALIGN (RTA_LENGTH (strlen name_in + 1))
      = (RTA_LENGTH (strlen name_in + 1) + 3) div 4 * 4"
    by (rule RTA_ALIGN_small)
  have mv: "strlen ''macvlan'' = 7"
    by (simp add: strlen_def)
  have mva: "RTA_ALIGN (RTA_LENGTH (strlen ''macvlan'' + 1)) = 12"
    by (simp add: mv RTA_LENGTH_eq RTA_ALIGN_def)
  show ?thesis
    unfolding al mva
    using veth_layout [OF fits, of name_out] macvlan_layout [of master name]
    by (simp add: mv sizeof_rtattr_def sizeof_ifinfomsg_def RTA_LENGTH_eq)
qed

theorem create_veth_pair_peer_record_witness:
  "72 + RTA_LENGTH (strlen ''pflask-4242'' + 1) \<le> NLMSG_GOOD_SIZE \<and>
   rta_type (create_veth_pair_req ''veth-out'' ''pflask-4242'') 52 = Some VETH_INFO_PEER \<and>
   rta_len (create_veth_pair_req ''veth-out'' ''pflask-4242'') 52 = Some 36 \<and>
   rta_len (create_veth_pair_req ''veth-out'' ''pflask-4242'') 48 = Some 40 \<and>
   rta_len (create_veth_pair_req ''veth-out'' ''pflask-4242'') 32 = Some 56 \<and>
   rta_len (create_veth_pair_req ''veth-out'' ''pflask-4242'') 72 = Some 16 \<and>
   rta_len (create_macvlan_req 2 ''pflask-4242'') 32 = Some 16"
proof -
  have s: "strlen ''pflask-4242'' = 11"
    by (simp add: strlen_def)
  have h: "72 + RTA_LENGTH (strlen ''pflask-4242'' + 1) \<le> NLMSG_GOOD_SIZE"
    by (simp add: s RTA_LENGTH_eq NLMSG_GOOD_SIZE_eq)
  have mv: "strlen ''macvlan'' = 7"
    by (simp add: strlen_def)
  show ?thesis
    using create_veth_pair_peer_record [OF h, of "''veth-out''" 2 "''pflask-4242''"] h
    by (simp add: s mv sizeof_rtattr_def sizeof_ifinfomsg_def RTA_LENGTH_eq RTA_ALIGN_def)
qed

subsection \<open>What \<open>sendmsg\<close> returns for the requests\<close>

text \<open>
  A request with short names is short, so the number of its bytes, which \<open>sendmsg\<close>
  returns when it has sent them, is the same number as an \<open>int\<close>.
\<close>

lemma to_int_small: "0 \<le> x \<Longrightarrow> x < 2 ^ 31 \<Longrightarrow> to_int x = x"
  by (simp add: to_int_def)

lemma NLMSG_ALIGN_le: "NLMSG_ALIGN n \<le> n + 3"
proof -
  have "(n + 3) mod 2 ^ 32 div 4 * 4 \<le> (n + 3) mod 2 ^ 32"
    by (rule div_times_less_eq_dividend)
  also have "\<dots> \<le> n + 3"
    by (rule mod_less_eq_dividend)
  finally show ?thesis
    by (simp add: NLMSG_ALIGN_def)
qed

lemma RTA_ALIGN_le: "RTA_ALIGN n \<le> n + 3"
  using NLMSG_ALIGN_le [of n] by (simp add: NLMSG_ALIGN_def RTA_ALIGN_def)

lemma nlmsg_len_rtattr_append_le:
  "nlmsg_len (hdr (rtattr_append m attr d)) \<le> nlmsg_len (hdr m) + length d + 10"
proof -
  have "nlmsg_len (hdr (rtattr_append m attr d))
          \<le> NLMSG_ALIGN (nlmsg_len (hdr m)) + RTA_ALIGN (RTA_LENGTH (length d))"
    by (simp add: rtattr_append_def Let_def)
  also have "\<dots> \<le> (nlmsg_len (hdr m) + 3) + (RTA_LENGTH (length d) + 3)"
    by (intro add_mono NLMSG_ALIGN_le RTA_ALIGN_le)
  finally show ?thesis
    by (simp add: RTA_LENGTH_eq)
qed

lemma nlmsg_len_rtattr_start_nested_le:
  "nlmsg_len (hdr (snd (rtattr_start_nested m attr))) \<le> nlmsg_len (hdr m) + 10"
  using nlmsg_len_rtattr_append_le [of m attr "[]"]
  by (simp add: rtattr_start_nested_def Let_def)

lemma nlmsg_len_move_and_rename_if_req_le:
  "nlmsg_len (hdr (move_and_rename_if_req pid if_index new_name)) \<le> strlen new_name + 57"
proof -
  let ?m0 = "\<lparr>hdr = \<lparr>nlmsg_len = NLMSG_LENGTH sizeof_ifinfomsg,
                        nlmsg_type = RTM_NEWLINK,
                        nlmsg_flags = NLM_F_REQUEST OR NLM_F_ACK,
                        nlmsg_seq = 1\<rparr>,
                 ifi = \<lparr>ifi_family = Some AF_UNSPEC,
                        ifi_index = Some if_index,
                        ifi_flags = None,
                        ifi_change = None\<rparr>,
                 mem = Map.empty\<rparr>"
  let ?m1 = "rtattr_append ?m0 IFLA_NET_NS_PID (int_bytes pid)"
  have "nlmsg_len (hdr ?m0) = 32"
    by (simp add: NLMSG_LENGTH_def NLMSG_HDRLEN_def NLMSG_ALIGN_def
        sizeof_ifinfomsg_def sizeof_nlmsghdr_def)
  moreover have "length (int_bytes pid) = 4"
    by (simp add: int_bytes_def sizeof_int_def)
  ultimately have "nlmsg_len (hdr ?m1) \<le> 46"
    using nlmsg_len_rtattr_append_le [of ?m0 IFLA_NET_NS_PID "int_bytes pid"] by simp
  then show ?thesis
    using nlmsg_len_rtattr_append_le [of ?m1 IFLA_IFNAME "string_bytes new_name"]
    by (simp add: move_and_rename_if_req_def Let_def length_string_bytes)
qed

lemma length_int_bytes: "length (int_bytes v) = 4"
  by (simp add: int_bytes_def sizeof_int_def)

lemma nlmsg_len_create_macvlan_req_le:
  "nlmsg_len (hdr (create_macvlan_req master name)) \<le> strlen name + 85"
proof -
  define m0 where "m0 = \<lparr>hdr = \<lparr>nlmsg_len = NLMSG_LENGTH sizeof_ifinfomsg,
                        nlmsg_type = RTM_NEWLINK,
                        nlmsg_flags = NLM_F_REQUEST OR NLM_F_CREATE OR NLM_F_EXCL OR NLM_F_ACK,
                        nlmsg_seq = 1\<rparr>,
                 ifi = \<lparr>ifi_family = Some AF_UNSPEC,
                        ifi_index = None,
                        ifi_flags = None,
                        ifi_change = None\<rparr>,
                 mem = Map.empty\<rparr>"
  define m1 where "m1 = snd (rtattr_start_nested m0 IFLA_LINKINFO)"
  define m2 where "m2 = rtattr_append m1 IFLA_INFO_KIND (string_bytes ''macvlan'')"
  define m3 where "m3 = rtattr_end_nested m2 (fst (rtattr_start_nested m0 IFLA_LINKINFO))"
  define m4 where "m4 = rtattr_append m3 IFLA_LINK (int_bytes (int master))"
  define m5 where "m5 = rtattr_append m4 IFLA_IFNAME (string_bytes name)"
  have r: "create_macvlan_req master name = m5"
    by (simp add: create_macvlan_req_def Let_def split_beta m0_def m1_def m2_def m3_def
        m4_def m5_def)
  have "nlmsg_len (hdr m0) = 32"
    by (simp add: m0_def NLMSG_LENGTH_def NLMSG_HDRLEN_def NLMSG_ALIGN_def
        sizeof_ifinfomsg_def sizeof_nlmsghdr_def)
  then have "nlmsg_len (hdr m1) \<le> 42"
    using nlmsg_len_rtattr_start_nested_le [of m0 IFLA_LINKINFO] by (simp add: m1_def)
  then have "nlmsg_len (hdr m2) \<le> 60"
    using nlmsg_len_rtattr_append_le [of m1 IFLA_INFO_KIND "string_bytes ''macvlan''"]
    by (simp add: m2_def string_bytes_def)
  then have "nlmsg_len (hdr m3) \<le> 60"
    by (simp add: m3_def hdr_rtattr_end_nested)
  then have "nlmsg_len (hdr m4) \<le> 74"
    using nlmsg_len_rtattr_append_le [of m3 IFLA_LINK "int_bytes (int master)"]
    by (simp add: m4_def length_int_bytes)
  then have "nlmsg_len (hdr m5) \<le> strlen name + 85"
    using nlmsg_len_rtattr_append_le [of m4 IFLA_IFNAME "string_bytes name"]
    by (simp add: m5_def length_string_bytes)
  then show ?thesis
    by (simp add: r)
qed

lemma nlmsg_len_create_veth_pair_req_le:
  "nlmsg_len (hdr (create_veth_pair_req name_out name_in))
     \<le> strlen name_out + strlen name_in + 115"
proof -
  define m0 where "m0 = \<lparr>hdr = \<lparr>nlmsg_len = NLMSG_LENGTH sizeof_ifinfomsg,
                        nlmsg_type = RTM_NEWLINK,
                        nlmsg_flags = NLM_F_REQUEST OR NLM_F_CREATE OR NLM_F_EXCL OR NLM_F_ACK,
                        nlmsg_seq = 1\<rparr>,
                 ifi = \<lparr>ifi_family = Some AF_UNSPEC,
                        ifi_index = None,
                        ifi_flags = None,
                        ifi_change = None\<rparr>,
                 mem = Map.empty\<rparr>"
  define m1 where "m1 = snd (rtattr_start_nested m0 IFLA_LINKINFO)"
  define m2 where "m2 = rtattr_append m1 IFLA_INFO_KIND (string_bytes ''veth'')"
  define m3 where "m3 = snd (rtattr_start_nested m2 IFLA_INFO_DATA)"
  define m4 where "m4 = snd (rtattr_start_nested m3 VETH_INFO_PEER)"
  define m5 where "m5 = m4\<lparr>hdr := (hdr m4)\<lparr>nlmsg_len :=
                  (nlmsg_len (hdr m4) + sizeof_ifinfomsg) mod 2 ^ 32\<rparr>\<rparr>"
  define m6 where "m6 = rtattr_append m5 IFLA_IFNAME (string_bytes name_in)"
  define m7 where "m7 = rtattr_end_nested m6 (fst (rtattr_start_nested m3 VETH_INFO_PEER))"
  define m8 where "m8 = rtattr_end_nested m7 (fst (rtattr_start_nested m2 IFLA_INFO_DATA))"
  define m9 where "m9 = rtattr_end_nested m8 (fst (rtattr_start_nested m0 IFLA_LINKINFO))"
  define m10 where "m10 = rtattr_append m9 IFLA_IFNAME (string_bytes name_out)"
  have r: "create_veth_pair_req name_out name_in = m10"
    by (simp add: create_veth_pair_req_def Let_def split_beta m0_def m1_def m2_def m3_def
        m4_def m5_def m6_def m7_def m8_def m9_def m10_def)
  have "nlmsg_len (hdr m0) = 32"
    by (simp add: m0_def NLMSG_LENGTH_def NLMSG_HDRLEN_def NLMSG_ALIGN_def
        sizeof_ifinfomsg_def sizeof_nlmsghdr_def)
  then have "nlmsg_len (hdr m1) \<le> 42"
    using nlmsg_len_rtattr_start_nested_le [of m0 IFLA_LINKINFO] by (simp add: m1_def)
  then have "nlmsg_len (hdr m2) \<le> 57"
    using nlmsg_len_rtattr_append_le [of m1 IFLA_INFO_KIND "string_bytes ''veth''"]
    by (simp add: m2_def string_bytes_def)
  then have "nlmsg_len (hdr m3) \<le> 67"
    using nlmsg_len_rtattr_start_nested_le [of m2 IFLA_INFO_DATA] by (simp add: m3_def)
  then have "nlmsg_len (hdr m4) \<le> 77"
    using nlmsg_len_rtattr_start_nested_le [of m3 VETH_INFO_PEER] by (simp add: m4_def)
  moreover have "nlmsg_len (hdr m5) \<le> nlmsg_len (hdr m4) + 16"
    by (simp add: m5_def sizeof_ifinfomsg_def mod_less_eq_dividend)
  ultimately have "nlmsg_len (hdr m5) \<le> 93"
    by linarith
  then have "nlmsg_len (hdr m6) \<le> strlen name_in + 104"
    using nlmsg_len_rtattr_append_le [of m5 IFLA_IFNAME "string_bytes name_in"]
    by (simp add: m6_def length_string_bytes)
  then have "nlmsg_len (hdr m9) \<le> strlen name_in + 104"
    by (simp add: m7_def m8_def m9_def hdr_rtattr_end_nested)
  then have "nlmsg_len (hdr m10) \<le> strlen name_out + strlen name_in + 115"
    using nlmsg_len_rtattr_append_le [of m9 IFLA_IFNAME "string_bytes name_out"]
    by (simp add: m10_def length_string_bytes)
  then show ?thesis
    by (simp add: r)
qed

lemma strlen_pflask_name:
  assumes "- (2 ^ 31) \<le> pid" and "pid < 2 ^ 31"
  shows "strlen (pflask_name pid) \<le> 18"
proof -
  have "nat \<bar>pid\<bar> < 10 ^ 10"
    using assms by simp
  then have "length (dec (nat \<bar>pid\<bar>)) \<le> 10"
    by (rule length_dec) simp
  then have "length (printf_d pid) \<le> 11"
    by (auto simp add: printf_d_def abs_if split: if_splits)
  then have "length (pflask_name pid) \<le> 18"
    by (simp add: pflask_name_def)
  with strlen_le [of "pflask_name pid"] show ?thesis
    by linarith
qed

lemma sent_if_up: "to_int (int (nlmsg_len (hdr (if_up_req i)))) = 32"
  by (simp add: nlmsg_len_if_up_req to_int_def)

lemma sent_move_and_rename_if:
  assumes "length new_name \<le> 1000"
  shows "\<not> to_int (int (nlmsg_len (hdr (move_and_rename_if_req pid if_index new_name)))) < 0"
proof -
  have "strlen new_name \<le> 1000"
    using strlen_le [of new_name] assms by linarith
  with nlmsg_len_move_and_rename_if_req_le [of pid if_index new_name]
  have "nlmsg_len (hdr (move_and_rename_if_req pid if_index new_name)) \<le> 1057"
    by linarith
  then show ?thesis
    by (simp add: to_int_small)
qed

lemma sent_create_macvlan:
  assumes "- (2 ^ 31) \<le> pid" and "pid < 2 ^ 31"
  shows "\<not> to_int (int (nlmsg_len (hdr (create_macvlan_req master (pflask_name pid))))) < 0"
proof -
  from nlmsg_len_create_macvlan_req_le [of master "pflask_name pid"]
    strlen_pflask_name [OF assms]
  have "nlmsg_len (hdr (create_macvlan_req master (pflask_name pid))) \<le> 103"
    by linarith
  then show ?thesis
    by (simp add: to_int_small)
qed

lemma sent_create_veth_pair:
  assumes "length name_out \<le> 1000" and "- (2 ^ 31) \<le> pid" and "pid < 2 ^ 31"
  shows "\<not> to_int (int (nlmsg_len (hdr (create_veth_pair_req name_out (pflask_name pid))))) < 0"
proof -
  have "strlen name_out \<le> 1000"
    using strlen_le [of name_out] assms(1) by linarith
  with nlmsg_len_create_veth_pair_req_le [of name_out "pflask_name pid"]
    strlen_pflask_name [OF assms(2,3)]
  have "nlmsg_len (hdr (create_veth_pair_req name_out (pflask_name pid))) \<le> 1133"
    by linarith
  then show ?thesis
    by (simp add: to_int_small)
qed

lemmas sent_ok = sent_if_up sent_move_and_rename_if sent_create_macvlan sent_create_veth_pair

subsection \<open>Programs and the events they add\<close>

lemma andthen_Inl: "m w = (Inl e, w') \<Longrightarrow> andthen m f w = (Inl e, w')"
  by (simp add: andthen_def)

lemma andthen_Inr: "m w = (Inr x, w') \<Longrightarrow> andthen m f w = f x w'"
  by (simp add: andthen_def)

lemma andthen_assoc: "andthen (andthen m f) g = andthen m (\<lambda>x. andthen (f x) g)"
  by (rule ext) (simp add: andthen_def split: prod.splits sum.splits)

lemma andthen_ret: "andthen (ret x) f = f x"
  by (rule ext) (simp add: andthen_def ret_def)

subsection \<open>Rules for \<open>emits\<close>\<close>

lemma emitsI:
  assumes "\<And>w r w'. m w = (r, w') \<Longrightarrow> \<exists>evs. trace w' = trace w @ evs \<and> P evs r"
  shows "emits m P"
  unfolding emits_def
proof
  fix w
  obtain r w' where "m w = (r, w')" by (cases "m w")
  with assms [OF this] show "\<exists>evs. trace (snd (m w)) = trace w @ evs \<and> P evs (fst (m w))"
    by simp
qed

lemma emitsD:
  assumes "emits m P" and "m w = (r, w')"
  obtains evs where "trace w' = trace w @ evs" and "P evs r"
  using assms unfolding emits_def by (metis fst_conv snd_conv)

lemma emits_weaken:
  assumes "emits m P" and "\<And>evs r. P evs r \<Longrightarrow> Q evs r"
  shows "emits m Q"
  using assms unfolding emits_def by blast

lemma emits_ret: "P [] (Inr x) \<Longrightarrow> emits (ret x) P"
  by (simp add: emits_def ret_def)

lemma emits_fail_printf: "P [] (Inl msg) \<Longrightarrow> emits (fail_printf msg) P"
  by (simp add: emits_def fail_printf_def)

lemma emits_sysf_printf: "P [] (Inl msg) \<Longrightarrow> emits (sysf_printf msg) P"
  by (simp add: emits_def sysf_printf_def)

lemma emits_andthen:
  assumes m: "emits m P"
    and f: "\<And>x. emits (f x) (Q x)"
    and fails: "\<And>evs e. P evs (Inl e) \<Longrightarrow> R evs (Inl e)"
    and goes: "\<And>evs x evs' r. P evs (Inr x) \<Longrightarrow> Q x evs' r \<Longrightarrow> R (evs @ evs') r"
  shows "emits (andthen m f) R"
proof (rule emitsI)
  fix w r w'
  assume run: "andthen m f w = (r, w')"
  obtain r1 w1 where m1: "m w = (r1, w1)" by (cases "m w")
  from m m1 obtain evs where t1: "trace w1 = trace w @ evs" and p: "P evs r1"
    by (rule emitsD)
  show "\<exists>evs. trace w' = trace w @ evs \<and> R evs r"
  proof (cases r1)
    case (Inl e)
    with run m1 have "r = Inl e" "w' = w1"
      by (simp_all add: andthen_def)
    with t1 p Inl fails show ?thesis by blast
  next
    case (Inr x)
    with run m1 have fx: "f x w1 = (r, w')"
      by (simp add: andthen_def)
    from f [of x] fx obtain evs' where t2: "trace w' = trace w1 @ evs'" and q: "Q x evs' r"
      by (rule emitsD)
    from p Inr q have "R (evs @ evs') r" by (intro goes) simp_all
    with t1 t2 show ?thesis by auto
  qed
qed

lemma trace_log: "trace (log ev w) = trace w @ [ev]"
  by (simp add: log_def)

lemma emits_socket: "emits (socket os) (\<lambda>evs r. \<exists>fd. evs = [Socket fd] \<and> r = Inr fd)"
  by (simp add: emits_def socket_def trace_log split: prod.splits)

lemma emits_bind_sock:
  "emits (bind_sock os sock) (\<lambda>evs r. \<exists>rc. evs = [Bind sock rc] \<and> r = Inr rc)"
  by (simp add: emits_def bind_sock_def trace_log split: prod.splits)

lemma emits_close: "emits (close os sock) (\<lambda>evs r. evs = [Close sock] \<and> r = Inr ())"
  by (simp add: emits_def close_def trace_log)

lemma emits_if_nametoindex:
  "emits (if_nametoindex os ifname)
     (\<lambda>evs r. \<exists>if_index. evs = [If_nametoindex ifname if_index] \<and> r = Inr if_index)"
  by (simp add: emits_def if_nametoindex_def trace_log Let_def)

lemma emits_sendmsg:
  "emits (sendmsg os sock nlmsg) (\<lambda>evs r. \<exists>rc. evs = [Sendmsg sock nlmsg rc] \<and> r = Inr rc)"
  by (simp add: emits_def sendmsg_def trace_log split: prod.splits)

lemma emits_recvmsg:
  "emits (recvmsg os sock nlmsg)
     (\<lambda>evs r. \<exists>rc nlmsg'. evs = [Recvmsg sock nlmsg' rc] \<and> r = Inr (rc, nlmsg'))"
  by (simp add: emits_def recvmsg_def trace_log split: prod.splits)

lemma emits_nl_open: "emits (nl_open os) opened"
  unfolding emits_def nl_open_def andthen_def socket_def bind_sock_def sysf_printf_def
    ret_def log_def opened_def
  by (auto split: prod.splits sum.splits)

lemma emits_transact: "emits (transact os sock req) (transacted os sock req)"
  unfolding emits_def transact_def nl_send_def nl_recv_def andthen_def sendmsg_def
    recvmsg_def sysf_printf_def fail_printf_def ret_def log_def transacted_def
  by (auto split: prod.splits sum.splits)

lemma if_up_transact: "if_up os sock if_index = transact os sock (if_up_req if_index)"
  by (simp add: if_up_def transact_def Let_def)

lemma create_macvlan_transact:
  "create_macvlan os sock master nm = transact os sock (create_macvlan_req master nm)"
  by (simp add: create_macvlan_def transact_def Let_def)

lemma create_veth_pair_transact:
  "create_veth_pair os sock name_out name_in
     = transact os sock (create_veth_pair_req name_out name_in)"
  by (simp add: create_veth_pair_def transact_def Let_def)

lemma move_and_rename_if_transact:
  "move_and_rename_if os sock pid if_index new_name =
     andthen (\<lambda>w. (Inr (), log (Move_and_rename_if pid if_index new_name) w))
       (\<lambda>_. transact os sock (move_and_rename_if_req pid if_index new_name))"
  by (simp add: move_and_rename_if_def transact_def Let_def)

lemma emits_move_and_rename_if:
  "emits (move_and_rename_if os sock pid if_index new_name)
     (\<lambda>evs r. \<exists>tevs. evs = Move_and_rename_if pid if_index new_name # tevs \<and>
        transacted os sock (move_and_rename_if_req pid if_index new_name) tevs r)"
  unfolding move_and_rename_if_transact
proof (rule emits_andthen [where Q = "\<lambda>_. transacted os sock (move_and_rename_if_req pid if_index new_name)"
      and P = "\<lambda>evs r. evs = [Move_and_rename_if pid if_index new_name] \<and> r = Inr ()"])
  show "emits (\<lambda>w. (Inr (), log (Move_and_rename_if pid if_index new_name) w))
     (\<lambda>evs r. evs = [Move_and_rename_if pid if_index new_name] \<and> r = Inr ())"
    by (simp add: emits_def trace_log)
qed (simp_all add: emits_transact)

lemma emits_resolve_checked:
  "emits (andthen (if_nametoindex os ifname) (\<lambda>if_index.
            if if_index = 0 then sysf_printf (Error_searching_for ifname) else f if_index))
     (\<lambda>evs r. (evs = [If_nametoindex ifname 0] \<and> r = Inl (Error_searching_for ifname)) \<or>
        (\<exists>idx evs'. idx \<noteq> 0 \<and> evs = If_nametoindex ifname idx # evs' \<and> Q idx evs' r))"
  if "\<And>idx. emits (f idx) (Q idx)"
proof (rule emits_andthen [OF emits_if_nametoindex,
      where Q = "\<lambda>idx evs r. if idx = 0 then evs = [] \<and> r = Inl (Error_searching_for ifname)
                              else Q idx evs r"])
  fix x :: nat
  show "emits (if x = 0 then sysf_printf (Error_searching_for ifname) else f x)
          (\<lambda>evs r. if x = 0 then evs = [] \<and> r = Inl (Error_searching_for ifname) else Q x evs r)"
    using that [of x] by (simp add: emits_sysf_printf)
qed (auto split: if_splits)

lemma emits_then_lookup:
  "emits (andthen (transact os sock req) (\<lambda>_. if_nametoindex os ifname))
     (\<lambda>evs r. (\<exists>e. transacted os sock req evs (Inl e) \<and> r = Inl e) \<or>
        (\<exists>tevs idx'. transacted os sock req tevs (Inr ()) \<and>
           evs = tevs @ [If_nametoindex ifname idx'] \<and> r = Inr idx'))"
  by (rule emits_andthen [OF emits_transact, where Q = "\<lambda>_ evs r. \<exists>if_index.
        evs = [If_nametoindex ifname if_index] \<and> r = Inr if_index"])
     (auto simp add: emits_if_nametoindex)

lemma emits_do_netif_switch: "emits (do_netif_switch os sock pid i) (switched os sock pid i)"
proof (cases "nif_type i")
  case MOVE
  have eq: "do_netif_switch os sock pid i =
      andthen (if_nametoindex os (nif_dev i)) (\<lambda>if_index.
            if if_index = 0 then sysf_printf (Error_searching_for (nif_dev i)) else ret if_index)"
    by (simp add: do_netif_switch_def MOVE)
  have e: "emits (andthen (if_nametoindex os (nif_dev i)) (\<lambda>if_index.
            if if_index = 0 then sysf_printf (Error_searching_for (nif_dev i)) else ret if_index))
     (\<lambda>evs r. (evs = [If_nametoindex (nif_dev i) 0] \<and> r = Inl (Error_searching_for (nif_dev i))) \<or>
        (\<exists>idx evs'. idx \<noteq> 0 \<and> evs = If_nametoindex (nif_dev i) idx # evs' \<and>
            (evs' = [] \<and> r = Inr idx)))"
    by (rule emits_resolve_checked) (simp add: emits_ret)
  show ?thesis
    unfolding eq by (rule emits_weaken [OF e]) (auto simp add: switched_def MOVE)
next
  case MACVLAN
  let ?name = "pflask_name pid"
  have eq: "do_netif_switch os sock pid i =
      andthen (if_nametoindex os (nif_dev i)) (\<lambda>if_index.
            if if_index = 0 then sysf_printf (Error_searching_for (nif_dev i))
            else andthen (transact os sock (create_macvlan_req if_index ?name))
                   (\<lambda>_. if_nametoindex os ?name))"
    by (simp add: do_netif_switch_def MACVLAN create_macvlan_transact Let_def cong: if_cong)
  have e: "emits (andthen (if_nametoindex os (nif_dev i)) (\<lambda>if_index.
            if if_index = 0 then sysf_printf (Error_searching_for (nif_dev i))
            else andthen (transact os sock (create_macvlan_req if_index ?name))
                   (\<lambda>_. if_nametoindex os ?name)))
     (\<lambda>evs r. (evs = [If_nametoindex (nif_dev i) 0] \<and> r = Inl (Error_searching_for (nif_dev i))) \<or>
        (\<exists>idx evs'. idx \<noteq> 0 \<and> evs = If_nametoindex (nif_dev i) idx # evs' \<and>
           ((\<exists>e. transacted os sock (create_macvlan_req idx ?name) evs' (Inl e) \<and> r = Inl e) \<or>
            (\<exists>tevs idx'. transacted os sock (create_macvlan_req idx ?name) tevs (Inr ()) \<and>
               evs' = tevs @ [If_nametoindex ?name idx'] \<and> r = Inr idx'))))"
    by (rule emits_resolve_checked) (rule emits_then_lookup)
  show ?thesis
    unfolding eq by (rule emits_weaken [OF e]) (auto simp add: switched_def MACVLAN)
next
  case VETH
  let ?name = "pflask_name pid"
  have eq: "do_netif_switch os sock pid i =
      andthen (transact os sock (create_veth_pair_req (nif_dev i) ?name))
        (\<lambda>_. if_nametoindex os ?name)"
    by (simp add: do_netif_switch_def VETH create_veth_pair_transact Let_def)
  show ?thesis
    unfolding eq by (rule emits_weaken [OF emits_then_lookup]) (auto simp add: switched_def VETH)
qed

lemma emits_do_netif_body: "emits (do_netif_body os sock pid i) (bodied os sock pid i)"
  unfolding do_netif_body_def
  by (rule emits_andthen [OF emits_do_netif_switch,
        where Q = "\<lambda>idx evs r. \<exists>tevs. evs = Move_and_rename_if pid idx (nif_name i) # tevs \<and>
          transacted os sock (move_and_rename_if_req pid idx (nif_name i)) tevs r"])
     (auto simp add: emits_move_and_rename_if bodied_def)

subsection \<open>The queue\<close>

lemma do_netif_reverse_eq: "do_netif_reverse ns i = ([], rev ns @ i)"
  by (induction ns arbitrary: i) simp_all

lemma netifs_add_netif:
  "netifs (add_netif t d n w) = \<lparr>nif_type = t, nif_dev = d, nif_name = n\<rparr> # netifs w"
  by (simp add: add_netif_def Let_def)

lemma trace_add_netif: "trace (add_netif t d n w) = trace w"
  by (simp add: add_netif_def Let_def)

lemma kernel_add_netif: "kernel (add_netif t d n w) = kernel w"
  by (simp add: add_netif_def Let_def)

lemma netifs_add_netifs: "netifs (add_netifs acts w) = rev acts @ netifs w"
  unfolding add_netifs_def
  by (induction acts arbitrary: w) (simp_all add: netifs_add_netif)

lemma trace_add_netifs: "trace (add_netifs acts w) = trace w"
  unfolding add_netifs_def
  by (induction acts arbitrary: w) (simp_all add: trace_add_netif)

lemma kernel_add_netifs: "kernel (add_netifs acts w) = kernel w"
  unfolding add_netifs_def
  by (induction acts arbitrary: w) (simp_all add: kernel_add_netif)

lemma netifs_log: "netifs (log ev w) = netifs w"
  by (simp add: log_def)

lemma netifs_nl_open: "nl_open os w = (r, w') \<Longrightarrow> netifs w' = netifs w"
  unfolding nl_open_def andthen_def socket_def bind_sock_def sysf_printf_def ret_def log_def
  by (auto split: prod.splits sum.splits if_splits)

lemma do_netif_eq:
  "do_netif os pid w =
     andthen (nl_open os) (\<lambda>sock w'.
       andthen (do_netif_loop os sock pid (rev (netifs w))) (\<lambda>_. close os sock)
         (w'\<lparr>netifs := []\<rparr>)) w"
proof (cases "nl_open os w")
  case (Pair r w1)
  then have n: "netifs w1 = netifs w" by (rule netifs_nl_open)
  show ?thesis
    by (cases r) (simp_all add: do_netif_def andthen_def Pair n do_netif_reverse_eq)
qed

subsection \<open>Calls of \<open>move_and_rename_if\<close> among the events\<close>

lemma move_calls_append: "move_calls (evs @ evs') = move_calls evs @ move_calls evs'"
  by (induction evs rule: move_calls.induct) simp_all

lemma move_calls_transacted: "transacted os sock req evs r \<Longrightarrow> move_calls evs = []"
  by (auto simp add: transacted_def)

lemma move_calls_opened: "opened evs r \<Longrightarrow> move_calls evs = []"
  by (auto simp add: opened_def)

lemma move_calls_switched: "switched os sock pid i evs r \<Longrightarrow> move_calls evs = []"
  by (cases "nif_type i")
     (auto simp add: switched_def move_calls_append dest: move_calls_transacted)

lemma emits_with_netifs: "emits m P \<Longrightarrow> emits (\<lambda>w. m (w\<lparr>netifs := ns\<rparr>)) P"
  unfolding emits_def
proof
  fix w
  assume "\<forall>w. \<exists>evs. trace (snd (m w)) = trace w @ evs \<and> P evs (fst (m w))"
  then have "\<exists>evs. trace (snd (m (w\<lparr>netifs := ns\<rparr>))) = trace (w\<lparr>netifs := ns\<rparr>) @ evs
     \<and> P evs (fst (m (w\<lparr>netifs := ns\<rparr>)))" ..
  then show "\<exists>evs. trace (snd (m (w\<lparr>netifs := ns\<rparr>))) = trace w @ evs \<and> P evs (fst (m (w\<lparr>netifs := ns\<rparr>)))"
    by simp
qed

lemmas run_defs = do_netif_def nl_open_def andthen_def socket_def bind_sock_def close_def
  if_nametoindex_def sendmsg_def recvmsg_def nl_send_def nl_recv_def sysf_printf_def
  fail_printf_def ret_def log_def do_netif_body_def do_netif_switch_def
  move_and_rename_if_def create_macvlan_def create_veth_pair_def if_up_def setup_loopback_def
  add_netifs_def add_netif_def example_os_def example_world_def Let_def NLMSG_ERROR_def
  to_int_small sent_ok

subsection \<open>Draining the queue twice\<close>

lemma keeps_netifsD: "keeps_netifs m \<Longrightarrow> m w = (r, w') \<Longrightarrow> netifs w' = netifs w"
  unfolding keeps_netifs_def by (metis snd_conv)

lemma keeps_ret: "keeps_netifs (ret x)"
  by (simp add: keeps_netifs_def ret_def)

lemma keeps_andthen:
  assumes "keeps_netifs m" and "\<And>x. keeps_netifs (f x)"
  shows "keeps_netifs (andthen m f)"
  unfolding keeps_netifs_def
proof
  fix w
  obtain r w1 where m: "m w = (r, w1)" by (cases "m w")
  with assms(1) have n: "netifs w1 = netifs w" by (rule keeps_netifsD)
  show "netifs (snd (andthen m f w)) = netifs w"
  proof (cases r)
    case (Inl e)
    with m n show ?thesis by (simp add: andthen_def)
  next
    case (Inr x)
    obtain r' w2 where f: "f x w1 = (r', w2)" by (cases "f x w1")
    with assms(2) [of x] have "netifs w2 = netifs w1" by (rule keeps_netifsD)
    with m n f Inr show ?thesis by (simp add: andthen_def)
  qed
qed

lemma keeps_nl_open: "keeps_netifs (nl_open os)"
  unfolding keeps_netifs_def using netifs_nl_open [OF surjective_pairing] by blast

lemma keeps_close: "keeps_netifs (close os sock)"
  by (simp add: keeps_netifs_def close_def log_def)

lemma keeps_if_nametoindex: "keeps_netifs (if_nametoindex os ifname)"
  by (simp add: keeps_netifs_def if_nametoindex_def log_def Let_def)

lemma keeps_transact: "keeps_netifs (transact os sock req)"
  unfolding keeps_netifs_def transact_def nl_send_def nl_recv_def andthen_def sendmsg_def
    recvmsg_def sysf_printf_def fail_printf_def ret_def log_def
  by (auto split: prod.splits sum.splits)

lemma keeps_move_and_rename_if: "keeps_netifs (move_and_rename_if os sock pid if_index new_name)"
  unfolding move_and_rename_if_transact
  by (rule keeps_andthen) (simp_all add: keeps_netifs_def log_def keeps_transact [unfolded keeps_netifs_def])

lemma keeps_do_netif_switch: "keeps_netifs (do_netif_switch os sock pid i)"
  unfolding do_netif_switch_def create_macvlan_transact create_veth_pair_transact
  by (cases "nif_type i")
     (auto simp add: Let_def keeps_ret keeps_if_nametoindex keeps_transact
        keeps_netifs_def [of "sysf_printf _"] sysf_printf_def
        intro!: keeps_andthen)

lemma keeps_do_netif_body: "keeps_netifs (do_netif_body os sock pid i)"
  unfolding do_netif_body_def
  by (intro keeps_andthen keeps_do_netif_switch keeps_move_and_rename_if)

lemma keeps_do_netif_loop: "keeps_netifs (do_netif_loop os sock pid acts)"
  by (induction acts) (auto intro!: keeps_andthen keeps_ret keeps_do_netif_body)

lemma netifs_do_netif:
  assumes "do_netif os pid w = (Inr x, w')"
  shows "netifs w' = []"
proof -
  obtain r1 w1 where o: "nl_open os w = (r1, w1)" by (cases "nl_open os w")
  with assms obtain sock where r1: "r1 = Inr sock"
    by (cases r1) (simp_all add: do_netif_eq andthen_def)
  let ?m = "andthen (do_netif_loop os sock pid (rev (netifs w))) (\<lambda>_. close os sock)"
  have k: "keeps_netifs ?m"
    by (intro keeps_andthen keeps_do_netif_loop keeps_close)
  have "?m (w1\<lparr>netifs := []\<rparr>) = (Inr x, w')"
    using assms o r1 by (simp add: do_netif_eq andthen_Inr)
  with k have "netifs w' = netifs (w1\<lparr>netifs := []\<rparr>)"
    by (rule keeps_netifsD)
  then show ?thesis by simp
qed

lemma do_netif_empty:
  assumes "netifs w = []"
  shows "do_netif os pid w =
           andthen (nl_open os) (\<lambda>sock w'. close os sock (w'\<lparr>netifs := []\<rparr>)) w"
  by (simp add: do_netif_eq assms andthen_ret)

lemma emits_open_close:
  "emits (andthen (nl_open os) (\<lambda>sock w'. close os sock (w'\<lparr>netifs := []\<rparr>)))
     (\<lambda>evs r. (\<exists>fd. evs = [Socket fd] \<and> r = Inl Failed_socket) \<or>
        (\<exists>fd rc. evs = [Socket fd, Bind fd rc] \<and> r = Inl Failed_bind) \<or>
        (\<exists>fd rc. evs = [Socket fd, Bind fd rc, Close fd] \<and> r = Inr ()))"
  by (rule emits_andthen [OF emits_nl_open,
        where Q = "\<lambda>sock evs r. evs = [Close sock] \<and> r = Inr ()"])
     (auto simp add: opened_def intro!: emits_with_netifs emits_close)

text \<open>
  C9.  When \<open>do_netif\<close> has returned, \<open>netifs\<close> is empty.  A second call then finds
  nothing to process: all it does is open the socket, bind it and close it again (or end
  the process where the socket cannot be opened or bound).  It looks up no name, sends no
  request and makes no call of \<open>move_and_rename_if\<close>, and it leaves \<open>netifs\<close> empty.
\<close>

theorem do_netif_twice:
  assumes first: "do_netif os pid w = (Inr (), w1)"
    and second: "do_netif os pid w1 = (r, w2)"
  shows "netifs w1 = [] \<and> netifs w2 = [] \<and>
         (\<exists>evs. trace w2 = trace w1 @ evs \<and>
            ((\<exists>fd. evs = [Socket fd] \<and> r = Inl Failed_socket) \<or>
             (\<exists>fd rc. evs = [Socket fd, Bind fd rc] \<and> r = Inl Failed_bind) \<or>
             (\<exists>fd rc. evs = [Socket fd, Bind fd rc, Close fd] \<and> r = Inr ())))"
proof -
  have e1: "netifs w1 = []"
    using first by (rule netifs_do_netif)
  then have run: "andthen (nl_open os) (\<lambda>sock w'. close os sock (w'\<lparr>netifs := []\<rparr>)) w1 = (r, w2)"
    using second by (simp add: do_netif_empty)
  have e2: "netifs w2 = []"
  proof -
    obtain r' w' where o: "nl_open os w1 = (r', w')" by (cases "nl_open os w1")
    then have n: "netifs w' = []"
      using netifs_nl_open e1 by fastforce
    show ?thesis
      using run o n by (cases r') (auto simp add: andthen_def close_def log_def)
  qed
  from emits_open_close run obtain evs where "trace w2 = trace w1 @ evs"
    and "(\<exists>fd. evs = [Socket fd] \<and> r = Inl Failed_socket) \<or>
        (\<exists>fd rc. evs = [Socket fd, Bind fd rc] \<and> r = Inl Failed_bind) \<or>
        (\<exists>fd rc. evs = [Socket fd, Bind fd rc, Close fd] \<and> r = Inr ())"
    by (rule emitsD)
  with e1 e2 show ?thesis by blast
qed

theorem do_netif_twice_witness:
  "fst (do_netif (example_os (\<lambda>_. 2) 0) 4242
     (add_netifs [\<lparr>nif_type = MOVE, nif_dev = ''eth0'', nif_name = ''wan''\<rparr>] example_world))
     = Inr () \<and>
   netifs (snd (do_netif (example_os (\<lambda>_. 2) 0) 4242
     (add_netifs [\<lparr>nif_type = MOVE, nif_dev = ''eth0'', nif_name = ''wan''\<rparr>] example_world)))
     = [] \<and>
   trace (snd (do_netif (example_os (\<lambda>_. 2) 0) 4242 (snd (do_netif (example_os (\<lambda>_. 2) 0) 4242
     (add_netifs [\<lparr>nif_type = MOVE, nif_dev = ''eth0'', nif_name = ''wan''\<rparr>] example_world)))))
     = trace (snd (do_netif (example_os (\<lambda>_. 2) 0) 4242
     (add_netifs [\<lparr>nif_type = MOVE, nif_dev = ''eth0'', nif_name = ''wan''\<rparr>] example_world)))
       @ [Socket 3, Bind 3 0, Close 3]"
proof -
  let ?os = "example_os (\<lambda>_. 2) 0 :: unit os"
  let ?w = "add_netifs [\<lparr>nif_type = MOVE, nif_dev = ''eth0'', nif_name = ''wan''\<rparr>] example_world"
  let ?w1 = "snd (do_netif ?os 4242 ?w)"
  have r: "fst (do_netif ?os 4242 ?w) = Inr ()"
    by (simp add: run_defs)
  then have first: "do_netif ?os 4242 ?w = (Inr (), ?w1)"
    by (metis prod.collapse)
  have second: "do_netif ?os 4242 ?w1 = (fst (do_netif ?os 4242 ?w1), snd (do_netif ?os 4242 ?w1))"
    by simp
  from do_netif_twice [OF first second]
  have e: "netifs ?w1 = []"
    and "\<exists>evs. trace (snd (do_netif ?os 4242 ?w1)) = trace ?w1 @ evs \<and>
            ((\<exists>fd. evs = [Socket fd] \<and> fst (do_netif ?os 4242 ?w1) = Inl Failed_socket) \<or>
             (\<exists>fd rc. evs = [Socket fd, Bind fd rc] \<and> fst (do_netif ?os 4242 ?w1) = Inl Failed_bind) \<or>
             (\<exists>fd rc. evs = [Socket fd, Bind fd rc, Close fd] \<and> fst (do_netif ?os 4242 ?w1) = Inr ()))"
    by blast+
  have "do_netif ?os 4242 ?w1
          = andthen (nl_open ?os) (\<lambda>sock w'. close ?os sock (w'\<lparr>netifs := []\<rparr>)) ?w1"
    using e by (rule do_netif_empty)
  then have "trace (snd (do_netif ?os 4242 ?w1)) = trace ?w1 @ [Socket 3, Bind 3 0, Close 3]"
    by (simp add: nl_open_def andthen_def socket_def bind_sock_def close_def ret_def log_def
        example_os_def)
  with r e show ?thesis by blast
qed

subsection \<open>Name lookups\<close>

lemma fst_transact_not_searching:
  "fst (transact os sock req w) \<noteq> Inl (Error_searching_for d)"
proof -
  obtain r w' where t: "transact os sock req w = (r, w')" by (cases "transact os sock req w")
  from emits_transact t obtain evs where "transacted os sock req evs r" by (rule emitsD)
  then have "r \<noteq> Inl (Error_searching_for d)"
    by (auto simp add: transacted_def)
  with t show ?thesis by simp
qed

lemma fst_move_and_rename_if_not_searching:
  "fst (move_and_rename_if os sock pid if_index new_name w) \<noteq> Inl (Error_searching_for d)"
  by (simp add: move_and_rename_if_transact andthen_def fst_transact_not_searching)

text \<open>
  C10.  Let the node be a \<open>VETH\<close> or a \<open>MACVLAN\<close> one, let the interface have been created
  under the transient name (\<open>create_veth_pair\<close>, or the lookup of the master and
  \<open>create_macvlan\<close>, returned), and let the kernel then know no interface of that name.
  The \<open>switch\<close> ends with 0 in \<open>if_index\<close> and without any error, and the next thing the
  body does is to call \<open>move_and_rename_if\<close> with interface index 0.
\<close>

theorem transient_name_not_checked:
  assumes created:
    "(nif_type i = VETH \<and>
        create_veth_pair os sock (nif_dev i) (pflask_name pid) w = (Inr (), w1)) \<or>
     (nif_type i = MACVLAN \<and> os_if_nametoindex os (nif_dev i) (kernel w) \<noteq> 0 \<and>
        create_macvlan os sock (os_if_nametoindex os (nif_dev i) (kernel w))
          (pflask_name pid)
          (log (If_nametoindex (nif_dev i) (os_if_nametoindex os (nif_dev i) (kernel w))) w)
        = (Inr (), w1))"
    and absent: "os_if_nametoindex os (pflask_name pid) (kernel w1) = 0"
  shows "do_netif_switch os sock pid i w
           = (Inr 0, log (If_nametoindex (pflask_name pid) 0) w1) \<and>
         do_netif_body os sock pid i w
           = move_and_rename_if os sock pid 0 (nif_name i)
               (log (If_nametoindex (pflask_name pid) 0) w1) \<and>
         (\<exists>evs. trace (snd (do_netif_body os sock pid i w))
            = trace w1 @ [If_nametoindex (pflask_name pid) 0,
                          Move_and_rename_if pid 0 (nif_name i)] @ evs) \<and>
         (\<forall>d. fst (do_netif_body os sock pid i w) \<noteq> Inl (Error_searching_for d))"
proof -
  let ?name = "pflask_name pid"
  let ?w2 = "log (If_nametoindex ?name 0) w1"
  have look: "if_nametoindex os ?name w1 = (Inr 0, ?w2)"
    using absent by (simp add: if_nametoindex_def Let_def)
  have sw: "do_netif_switch os sock pid i w = (Inr 0, ?w2)"
    using created
  proof (elim disjE conjE)
    assume "nif_type i = VETH"
      and "create_veth_pair os sock (nif_dev i) ?name w = (Inr (), w1)"
    then show ?thesis
      using look by (simp add: do_netif_switch_def Let_def andthen_Inr)
  next
    let ?master = "os_if_nametoindex os (nif_dev i) (kernel w)"
    assume t: "nif_type i = MACVLAN" and m: "?master \<noteq> 0"
      and c: "create_macvlan os sock ?master ?name (log (If_nametoindex (nif_dev i) ?master) w)
                = (Inr (), w1)"
    have "if_nametoindex os (nif_dev i) w
            = (Inr ?master, log (If_nametoindex (nif_dev i) ?master) w)"
      by (simp add: if_nametoindex_def Let_def)
    then show ?thesis
      using m c look by (simp add: do_netif_switch_def t Let_def andthen_Inr)
  qed
  then have body: "do_netif_body os sock pid i w
                     = move_and_rename_if os sock pid 0 (nif_name i) ?w2"
    by (simp add: do_netif_body_def andthen_Inr)
  obtain r w' where mv: "move_and_rename_if os sock pid 0 (nif_name i) ?w2 = (r, w')"
    by (cases "move_and_rename_if os sock pid 0 (nif_name i) ?w2")
  from emits_move_and_rename_if mv obtain evs
    where "trace w' = trace ?w2 @ evs"
      and "\<exists>tevs. evs = Move_and_rename_if pid 0 (nif_name i) # tevs \<and>
             transacted os sock (move_and_rename_if_req pid 0 (nif_name i)) tevs r"
    by (rule emitsD)
  then have "\<exists>tevs. trace (snd (do_netif_body os sock pid i w))
            = trace w1 @ [If_nametoindex ?name 0, Move_and_rename_if pid 0 (nif_name i)] @ tevs"
    by (auto simp add: body mv trace_log)
  moreover have "\<forall>d. fst (do_netif_body os sock pid i w) \<noteq> Inl (Error_searching_for d)"
    by (simp add: body fst_move_and_rename_if_not_searching)
  ultimately show ?thesis
    using sw body by blast
qed

theorem transient_name_not_checked_witness:
  "create_veth_pair (example_os (\<lambda>_. 0) 0) 3 ''veth-out'' (pflask_name 4242)
     example_world
   = (Inr (), snd (create_veth_pair (example_os (\<lambda>_. 0) 0) 3 ''veth-out''
                    (pflask_name 4242) example_world)) \<and>
   fst (do_netif_switch (example_os (\<lambda>_. 0) 0) 3 4242
         \<lparr>nif_type = VETH, nif_dev = ''veth-out'', nif_name = ''veth-in''\<rparr> example_world)
     = Inr 0 \<and>
   move_calls (trace (snd (do_netif_body (example_os (\<lambda>_. 0) 0) 3 4242
         \<lparr>nif_type = VETH, nif_dev = ''veth-out'', nif_name = ''veth-in''\<rparr> example_world)))
     = [(4242, 0, ''veth-in'')]"
proof -
  let ?os = "example_os (\<lambda>_. 0) 0 :: unit os"
  let ?i = "\<lparr>nif_type = VETH, nif_dev = ''veth-out'', nif_name = ''veth-in''\<rparr>"
  let ?name = "pflask_name 4242"
  let ?w1 = "snd (create_veth_pair ?os 3 ''veth-out'' ?name example_world)"
  have c: "create_veth_pair ?os 3 ''veth-out'' ?name example_world = (Inr (), ?w1)"
    by (simp add: run_defs)
  then have created:
    "(nif_type ?i = VETH \<and>
        create_veth_pair ?os 3 (nif_dev ?i) (pflask_name 4242) example_world
          = (Inr (), ?w1)) \<or>
     (nif_type ?i = MACVLAN \<and> os_if_nametoindex ?os (nif_dev ?i) (kernel example_world) \<noteq> 0 \<and>
        create_macvlan ?os 3 (os_if_nametoindex ?os (nif_dev ?i) (kernel example_world))
          (pflask_name 4242)
          (log (If_nametoindex (nif_dev ?i)
             (os_if_nametoindex ?os (nif_dev ?i) (kernel example_world))) example_world)
        = (Inr (), ?w1))"
    by simp
  have absent: "os_if_nametoindex ?os (pflask_name 4242) (kernel ?w1) = 0"
    by (simp add: example_os_def)
  from transient_name_not_checked [OF created absent]
  have sw: "fst (do_netif_switch ?os 3 4242 ?i example_world) = Inr 0"
    by simp
  have "move_calls (trace (snd (do_netif_body ?os 3 4242 ?i example_world)))
          = [(4242, 0, ''veth-in'')]"
    by (simp add: run_defs)
  with c sw show ?thesis by blast
qed

lemma fst_andthen_Inl:
  assumes "fst (andthen m f w) = Inl e"
  shows "fst (m w) = Inl e \<or> (\<exists>x w1. m w = (Inr x, w1) \<and> fst (f x w1) = Inl e)"
proof (cases "m w")
  case (Pair r w1)
  with assms show ?thesis
    by (cases r) (simp_all add: andthen_def)
qed

lemma fst_if_nametoindex: "fst (if_nametoindex os ifname w) \<noteq> Inl e"
  by (simp add: if_nametoindex_def Let_def)

lemma fst_created_then_moved:
  "fst (andthen (andthen (transact os sock req) (\<lambda>_. if_nametoindex os ifname))
          (\<lambda>if_index. move_and_rename_if os sock pid if_index new_name) w)
     \<noteq> Inl (Error_searching_for d)"
proof
  assume "fst (andthen (andthen (transact os sock req) (\<lambda>_. if_nametoindex os ifname))
          (\<lambda>if_index. move_and_rename_if os sock pid if_index new_name) w)
     = Inl (Error_searching_for d)"
  then consider
      "fst (andthen (transact os sock req) (\<lambda>_. if_nametoindex os ifname) w)
         = Inl (Error_searching_for d)"
    | x w1 where "fst (move_and_rename_if os sock pid x new_name w1) = Inl (Error_searching_for d)"
    using fst_andthen_Inl by fastforce
  then show False
  proof cases
    case 1
    then consider "fst (transact os sock req w) = Inl (Error_searching_for d)"
      | x w1 where "fst (if_nametoindex os ifname w1) = Inl (Error_searching_for d)"
      using fst_andthen_Inl by fastforce
    then show False
      by cases (simp_all add: fst_transact_not_searching fst_if_nametoindex)
  next
    case 2
    then show False
      by (simp add: fst_move_and_rename_if_not_searching)
  qed
qed

text \<open>
  C7.  One pass through the loop body ends the process with \<open>"Error searching for"\<close>
  exactly when the node is a \<open>MOVE\<close> or a \<open>MACVLAN\<close> one and the kernel, as the pass starts,
  knows no interface of the name in \<open>dev\<close>.  The process then ends there: the lookup is
  the only thing that has happened, no request has been sent, and the rest of the queue
  is not touched.  When the name resolves, or the node is a \<open>VETH\<close> one, the pass never
  ends with that message.
\<close>

theorem error_searching_iff:
  "((nif_type i = MOVE \<or> nif_type i = MACVLAN) \<and>
      os_if_nametoindex os (nif_dev i) (kernel w) = 0 \<longrightarrow>
      do_netif_body os sock pid i w
        = (Inl (Error_searching_for (nif_dev i)), log (If_nametoindex (nif_dev i) 0) w) \<and>
      do_netif_loop os sock pid (i # rest) w
        = (Inl (Error_searching_for (nif_dev i)), log (If_nametoindex (nif_dev i) 0) w)) \<and>
   (\<not> ((nif_type i = MOVE \<or> nif_type i = MACVLAN) \<and>
         os_if_nametoindex os (nif_dev i) (kernel w) = 0) \<longrightarrow>
      (\<forall>d. fst (do_netif_body os sock pid i w) \<noteq> Inl (Error_searching_for d)))"
proof (intro conjI impI allI)
  assume a: "(nif_type i = MOVE \<or> nif_type i = MACVLAN) \<and>
      os_if_nametoindex os (nif_dev i) (kernel w) = 0"
  then have look: "if_nametoindex os (nif_dev i) w
      = (Inr 0, log (If_nametoindex (nif_dev i) 0) w)"
    by (simp add: if_nametoindex_def Let_def)
  have step: "andthen (if_nametoindex os (nif_dev i)) f w
      = f 0 (log (If_nametoindex (nif_dev i) 0) w)" for f :: "nat \<Rightarrow> (nat, 'a) prog"
    by (simp add: andthen_def look)
  have "do_netif_switch os sock pid i w
      = (Inl (Error_searching_for (nif_dev i)), log (If_nametoindex (nif_dev i) 0) w)"
    using a by (auto simp add: do_netif_switch_def Let_def step sysf_printf_def)
  then show b: "do_netif_body os sock pid i w
      = (Inl (Error_searching_for (nif_dev i)), log (If_nametoindex (nif_dev i) 0) w)"
    by (simp add: do_netif_body_def andthen_Inl)
  show "do_netif_loop os sock pid (i # rest) w
      = (Inl (Error_searching_for (nif_dev i)), log (If_nametoindex (nif_dev i) 0) w)"
    by (simp add: andthen_def b)
next
  fix d
  assume n: "\<not> ((nif_type i = MOVE \<or> nif_type i = MACVLAN) \<and>
         os_if_nametoindex os (nif_dev i) (kernel w) = 0)"
  let ?idx = "os_if_nametoindex os (nif_dev i) (kernel w)"
  have look: "if_nametoindex os (nif_dev i) w
      = (Inr ?idx, log (If_nametoindex (nif_dev i) ?idx) w)"
    by (simp add: if_nametoindex_def Let_def)
  have step: "andthen (if_nametoindex os (nif_dev i)) f w
      = f ?idx (log (If_nametoindex (nif_dev i) ?idx) w)" for f :: "nat \<Rightarrow> (unit, 'a) prog"
    by (simp add: andthen_def look)
  show "fst (do_netif_body os sock pid i w) \<noteq> Inl (Error_searching_for d)"
  proof (cases "nif_type i")
    case MOVE
    with n have "?idx \<noteq> 0" by simp
    then have "do_netif_body os sock pid i w
        = move_and_rename_if os sock pid ?idx (nif_name i)
            (log (If_nametoindex (nif_dev i) ?idx) w)"
      by (simp add: do_netif_body_def do_netif_switch_def MOVE andthen_assoc
          step andthen_ret)
    then show ?thesis
      by (simp add: fst_move_and_rename_if_not_searching)
  next
    case MACVLAN
    with n have "?idx \<noteq> 0" by simp
    then have "do_netif_body os sock pid i w
        = andthen (andthen (transact os sock (create_macvlan_req ?idx (pflask_name pid)))
                     (\<lambda>_. if_nametoindex os (pflask_name pid)))
            (\<lambda>if_index. move_and_rename_if os sock pid if_index (nif_name i))
            (log (If_nametoindex (nif_dev i) ?idx) w)"
      by (simp add: do_netif_body_def do_netif_switch_def MACVLAN andthen_assoc Let_def
          step create_macvlan_transact)
    then show ?thesis
      by (simp add: fst_created_then_moved)
  next
    case VETH
    have "do_netif_body os sock pid i w
        = andthen (andthen (transact os sock (create_veth_pair_req (nif_dev i) (pflask_name pid)))
                     (\<lambda>_. if_nametoindex os (pflask_name pid)))
            (\<lambda>if_index. move_and_rename_if os sock pid if_index (nif_name i)) w"
      by (simp add: do_netif_body_def do_netif_switch_def VETH Let_def
          create_veth_pair_transact)
    then show ?thesis
      by (simp add: fst_created_then_moved)
  qed
qed

theorem error_searching_iff_witness:
  "do_netif_body (example_os (\<lambda>ifname. if ifname = ''eth0'' then 2 else 0) 0) 3 4242
     \<lparr>nif_type = MOVE, nif_dev = ''eth7'', nif_name = ''wan''\<rparr> example_world
   = (Inl (Error_searching_for ''eth7''), log (If_nametoindex ''eth7'' 0) example_world) \<and>
   fst (do_netif_body (example_os (\<lambda>ifname. if ifname = ''eth0'' then 2 else 0) 0) 3 4242
     \<lparr>nif_type = MACVLAN, nif_dev = ''eth0'', nif_name = ''mv0''\<rparr> example_world)
   \<noteq> Inl (Error_searching_for ''eth0'')"
proof -
  let ?os = "example_os (\<lambda>ifname. if ifname = ''eth0'' then 2 else 0) 0 :: unit os"
  let ?a = "\<lparr>nif_type = MOVE, nif_dev = ''eth7'', nif_name = ''wan''\<rparr>"
  let ?b = "\<lparr>nif_type = MACVLAN, nif_dev = ''eth0'', nif_name = ''mv0''\<rparr>"
  have a: "(nif_type ?a = MOVE \<or> nif_type ?a = MACVLAN) \<and>
      os_if_nametoindex ?os (nif_dev ?a) (kernel example_world) = 0"
    by (simp add: example_os_def)
  have b: "\<not> ((nif_type ?b = MOVE \<or> nif_type ?b = MACVLAN) \<and>
      os_if_nametoindex ?os (nif_dev ?b) (kernel example_world) = 0)"
    by (simp add: example_os_def)
  from a error_searching_iff [of ?a ?os example_world 3 4242 "[]"]
  have "do_netif_body ?os 3 4242 ?a example_world
   = (Inl (Error_searching_for ''eth7''), log (If_nametoindex ''eth7'' 0) example_world)"
    by simp
  moreover from b error_searching_iff [of ?b ?os example_world 3 4242 "[]"]
  have "fst (do_netif_body ?os 3 4242 ?b example_world) \<noteq> Inl (Error_searching_for ''eth0'')"
    by blast
  ultimately show ?thesis by blast
qed

subsection \<open>The loopback interface\<close>

lemma emits_setup_loopback:
  "emits (setup_loopback os)
     (\<lambda>evs r. (\<exists>e. opened evs (Inl e) \<and> r = Inl e) \<or>
        (\<exists>oevs fd tevs e. opened oevs (Inr fd) \<and> transacted os fd (if_up_req 1) tevs (Inl e) \<and>
           evs = oevs @ tevs \<and> r = Inl e) \<or>
        (\<exists>oevs fd tevs. opened oevs (Inr fd) \<and> transacted os fd (if_up_req 1) tevs (Inr ()) \<and>
           evs = oevs @ tevs @ [Close fd] \<and> r = Inr ()))"
  unfolding setup_loopback_def if_up_transact
proof (rule emits_andthen [OF emits_nl_open,
      where Q = "\<lambda>fd evs r. (\<exists>e. transacted os fd (if_up_req 1) evs (Inl e) \<and> r = Inl e) \<or>
        (\<exists>tevs. transacted os fd (if_up_req 1) tevs (Inr ()) \<and> evs = tevs @ [Close fd] \<and>
           r = Inr ())"])
  fix fd :: int
  show "emits (andthen (transact os fd (if_up_req 1)) (\<lambda>_. close os fd))
          (\<lambda>evs r. (\<exists>e. transacted os fd (if_up_req 1) evs (Inl e) \<and> r = Inl e) \<or>
             (\<exists>tevs. transacted os fd (if_up_req 1) tevs (Inr ()) \<and> evs = tevs @ [Close fd] \<and>
                r = Inr ()))"
    by (rule emits_andthen [OF emits_transact,
          where Q = "\<lambda>_ evs r. evs = [Close fd] \<and> r = Inr ()"])
       (auto simp add: emits_close)
qed blast+

text \<open>
  C8.  \<open>setup_loopback\<close> opens a socket and binds it; where that fails the process ends
  with \<open>"socket()"\<close> or \<open>"bind()"\<close> and nothing is sent.  Otherwise it sends one request,
  the bring-up request for interface index 1, and nothing else: what follows is at most
  the reception of the answer and the closing of the socket.  The request has index 1,
  flags and change mask \<open>IFF_UP\<close>, header flags \<open>NLM_F_REQUEST | NLM_F_ACK\<close> and no
  attribute.  No name is looked up, and the process never ends with
  \<open>"Error searching for"\<close>.
\<close>

theorem setup_loopback_one_request:
  assumes run: "setup_loopback os w = (r, w')"
  shows "(\<exists>evs. trace w' = trace w @ evs \<and>
            ((\<exists>fd. evs = [Socket fd] \<and> r = Inl Failed_socket) \<or>
             (\<exists>fd rc. evs = [Socket fd, Bind fd rc] \<and> r = Inl Failed_bind) \<or>
             (\<exists>fd rc rc' rest.
                 evs = Socket fd # Bind fd rc # Sendmsg fd (if_up_req 1) rc' # rest \<and>
                 (rest = [] \<or> (\<exists>rep rc''. rest = [Recvmsg fd rep rc'']) \<or>
                  (\<exists>rep rc''. rest = [Recvmsg fd rep rc'', Close fd]))))) \<and>
         ifi_index (ifi (if_up_req 1)) = Some 1 \<and>
         ifi_flags (ifi (if_up_req 1)) = Some IFF_UP \<and>
         ifi_change (ifi (if_up_req 1)) = Some IFF_UP \<and>
         nlmsg_flags (hdr (if_up_req 1)) = NLM_F_REQUEST OR NLM_F_ACK \<and>
         nlmsg_type (hdr (if_up_req 1)) = RTM_NEWLINK \<and>
         nlmsg_len (hdr (if_up_req 1)) = NLMSG_LENGTH sizeof_ifinfomsg \<and>
         mem (if_up_req 1) = Map.empty \<and>
         (\<forall>d. r \<noteq> Inl (Error_searching_for d))"
proof -
  from emits_setup_loopback run obtain evs where t: "trace w' = trace w @ evs"
    and p: "(\<exists>e. opened evs (Inl e) \<and> r = Inl e) \<or>
        (\<exists>oevs fd tevs e. opened oevs (Inr fd) \<and> transacted os fd (if_up_req 1) tevs (Inl e) \<and>
           evs = oevs @ tevs \<and> r = Inl e) \<or>
        (\<exists>oevs fd tevs. opened oevs (Inr fd) \<and> transacted os fd (if_up_req 1) tevs (Inr ()) \<and>
           evs = oevs @ tevs @ [Close fd] \<and> r = Inr ())"
    by (rule emitsD)
  from p have shape: "(\<exists>fd. evs = [Socket fd] \<and> r = Inl Failed_socket) \<or>
             (\<exists>fd rc. evs = [Socket fd, Bind fd rc] \<and> r = Inl Failed_bind) \<or>
             (\<exists>fd rc rc' rest.
                 evs = Socket fd # Bind fd rc # Sendmsg fd (if_up_req 1) rc' # rest \<and>
                 (rest = [] \<or> (\<exists>rep rc''. rest = [Recvmsg fd rep rc'']) \<or>
                  (\<exists>rep rc''. rest = [Recvmsg fd rep rc'', Close fd])))"
    by (auto simp add: opened_def transacted_def)
  from p have "\<forall>d. r \<noteq> Inl (Error_searching_for d)"
    by (auto simp add: opened_def transacted_def)
  moreover have "\<exists>evs. trace w' = trace w @ evs \<and>
            ((\<exists>fd. evs = [Socket fd] \<and> r = Inl Failed_socket) \<or>
             (\<exists>fd rc. evs = [Socket fd, Bind fd rc] \<and> r = Inl Failed_bind) \<or>
             (\<exists>fd rc rc' rest.
                 evs = Socket fd # Bind fd rc # Sendmsg fd (if_up_req 1) rc' # rest \<and>
                 (rest = [] \<or> (\<exists>rep rc''. rest = [Recvmsg fd rep rc'']) \<or>
                  (\<exists>rep rc''. rest = [Recvmsg fd rep rc'', Close fd]))))"
    using t shape by blast
  ultimately show ?thesis
    by (simp add: if_up_req_def)
qed

theorem setup_loopback_one_request_witness:
  "trace (snd (setup_loopback (example_os (\<lambda>_. 0) 0) example_world))
     = trace example_world @
       [Socket 3, Bind 3 0, Sendmsg 3 (if_up_req 1) (int (nlmsg_len (hdr (if_up_req 1)))),
        Recvmsg 3 \<lparr>err_hdr = \<lparr>nlmsg_len = 36, nlmsg_type = NLMSG_ERROR, nlmsg_flags = 0,
                              nlmsg_seq = 1\<rparr>, err_error = 0\<rparr> 36,
        Close 3] \<and>
   fst (setup_loopback (example_os (\<lambda>_. 0) 0) example_world) = Inr () \<and>
   ifi_index (ifi (if_up_req 1)) = Some 1"
proof -
  let ?run = "setup_loopback (example_os (\<lambda>_. 0) 0) example_world"
  have "?run = (fst ?run, snd ?run)" by simp
  from setup_loopback_one_request [OF this]
  have "ifi_index (ifi (if_up_req 1)) = Some 1"
    by blast
  moreover have "trace (snd ?run)
     = trace example_world @
       [Socket 3, Bind 3 0, Sendmsg 3 (if_up_req 1) (int (nlmsg_len (hdr (if_up_req 1)))),
        Recvmsg 3 \<lparr>err_hdr = \<lparr>nlmsg_len = 36, nlmsg_type = NLMSG_ERROR, nlmsg_flags = 0,
                              nlmsg_seq = 1\<rparr>, err_error = 0\<rparr> 36,
        Close 3]"
    by (simp add: run_defs)
  moreover have "fst ?run = Inr ()"
    by (simp add: run_defs)
  ultimately show ?thesis by blast
qed

subsection \<open>Answers of the kernel\<close>

lemma failed_simps [simp]: "failed (Inl e) = Some e" "failed (Inr x) = None"
  by (simp_all add: failed_def)

lemma failed_None: "failed r = None \<longleftrightarrow> (\<exists>x. r = Inr x)"
  by (cases r) simp_all

lemma replies_ok_tl: "replies_ok os (ev # evs) r \<Longrightarrow> replies_ok os evs r"
  by (cases ev) simp_all

lemma replies_ok_append:
  assumes "replies_ok os evs None" and "replies_ok os evs' r" and "evs' \<noteq> [] \<or> r = None"
  shows "replies_ok os (evs @ evs') r"
  using assms
proof (induction evs)
  case Nil
  then show ?case by simp
next
  case (Cons ev evs)
  then have "replies_ok os (evs @ evs') r"
    by (simp add: replies_ok_tl)
  with Cons.prems show ?case
    by (cases ev) (auto split: if_splits)
qed

lemma replies_ok_split:
  assumes "replies_ok os (pre @ Recvmsg sock rep rc # post) r"
    and "0 \<le> to_int rc" and "nlmsg_type (err_hdr rep) = NLMSG_ERROR"
  shows "if sint (err_error rep) < 0
         then post = [] \<and>
              r = Some (Error_sending_netlink_request (os_strerror os (sint (- err_error rep))))
         else post \<noteq> [] \<or> r = None"
  using assms
proof (induction pre)
  case Nil
  then show ?case by (auto split: if_splits)
next
  case (Cons ev pre)
  from Cons.prems(1) have "replies_ok os (pre @ Recvmsg sock rep rc # post) r"
    by (simp add: replies_ok_tl)
  then show ?case using Cons.prems(2,3) by (rule Cons.IH)
qed

lemma replies_ok_transacted:
  assumes "transacted os sock req evs r"
  shows "replies_ok os evs (failed r) \<and> evs \<noteq> []"
  using assms by (auto simp add: transacted_def)

lemma replies_ok_opened: "opened evs r \<Longrightarrow> replies_ok os evs None \<and> evs \<noteq> []"
  by (auto simp add: opened_def)

lemma replies_ok_switched:
  assumes "switched os sock pid i evs r"
  shows "replies_ok os evs (failed r) \<and> evs \<noteq> []"
proof (cases "nif_type i")
  case MOVE
  with assms show ?thesis by (auto simp add: switched_def)
next
  case MACVLAN
  with assms consider
      "evs = [If_nametoindex (nif_dev i) 0]"
    | idx tevs e where
        "transacted os sock (create_macvlan_req idx (pflask_name pid)) tevs (Inl e)"
        "evs = If_nametoindex (nif_dev i) idx # tevs" "r = Inl e"
    | idx tevs idx' where
        "transacted os sock (create_macvlan_req idx (pflask_name pid)) tevs (Inr ())"
        "evs = If_nametoindex (nif_dev i) idx # tevs @ [If_nametoindex (pflask_name pid) idx']"
        "r = Inr idx'"
    by (auto simp add: switched_def)
  then show ?thesis
  proof cases
    case 1
    then show ?thesis by simp
  next
    case 2
    then show ?thesis using replies_ok_transacted [OF 2(1)] by simp
  next
    case 3
    have "replies_ok os (tevs @ [If_nametoindex (pflask_name pid) idx']) None"
      using replies_ok_transacted [OF 3(1)] by (intro replies_ok_append) simp_all
    with 3 show ?thesis by simp
  qed
next
  case VETH
  with assms consider
      tevs e where
        "transacted os sock (create_veth_pair_req (nif_dev i) (pflask_name pid)) tevs (Inl e)"
        "evs = tevs" "r = Inl e"
    | tevs idx' where
        "transacted os sock (create_veth_pair_req (nif_dev i) (pflask_name pid)) tevs (Inr ())"
        "evs = tevs @ [If_nametoindex (pflask_name pid) idx']" "r = Inr idx'"
    by (auto simp add: switched_def)
  then show ?thesis
  proof cases
    case 1
    then show ?thesis using replies_ok_transacted [OF 1(1)] by simp
  next
    case 2
    have "replies_ok os (tevs @ [If_nametoindex (pflask_name pid) idx']) None"
      using replies_ok_transacted [OF 2(1)] by (intro replies_ok_append) simp_all
    with 2 show ?thesis by simp
  qed
qed

lemma replies_ok_bodied:
  assumes "bodied os sock pid i evs r"
  shows "replies_ok os evs (failed r) \<and> evs \<noteq> []"
  using assms unfolding bodied_def
proof (elim disjE exE conjE)
  fix e
  assume "switched os sock pid i evs (Inl e)" and "r = Inl e"
  then show ?thesis
    using replies_ok_switched by fastforce
next
  fix sevs idx tevs
  assume s: "switched os sock pid i sevs (Inr idx)"
    and t: "transacted os sock (move_and_rename_if_req pid idx (nif_name i)) tevs r"
    and e: "evs = sevs @ Move_and_rename_if pid idx (nif_name i) # tevs"
  have "replies_ok os sevs None"
    using replies_ok_switched [OF s] by simp
  moreover have "replies_ok os (Move_and_rename_if pid idx (nif_name i) # tevs) (failed r)"
    using replies_ok_transacted [OF t] by simp
  ultimately show ?thesis
    unfolding e by (simp add: replies_ok_append)
qed

lemma emits_do_netif_loop_replies:
  "emits (do_netif_loop os sock pid acts)
     (\<lambda>evs r. replies_ok os evs (failed r) \<and> (evs = [] \<longrightarrow> r = Inr ()))"
proof (induction acts)
  case Nil
  show ?case by (simp add: emits_ret)
next
  case (Cons i rest)
  show ?case
    unfolding do_netif_loop.simps
  proof (rule emits_andthen [OF emits_do_netif_body,
        where Q = "\<lambda>_ evs r. replies_ok os evs (failed r) \<and> (evs = [] \<longrightarrow> r = Inr ())"])
    show "emits (do_netif_loop os sock pid rest)
            (\<lambda>evs r. replies_ok os evs (failed r) \<and> (evs = [] \<longrightarrow> r = Inr ()))" for x :: unit
      by (rule Cons.IH)
  next
    fix evs e
    assume "bodied os sock pid i evs (Inl e)"
    then show "replies_ok os evs (failed (Inl e :: failure + unit)) \<and>
                 (evs = [] \<longrightarrow> (Inl e :: failure + unit) = Inr ())"
      using replies_ok_bodied by fastforce
  next
    fix evs x evs' and r :: "failure + unit"
    assume b: "bodied os sock pid i evs (Inr x)"
      and l: "replies_ok os evs' (failed r) \<and> (evs' = [] \<longrightarrow> r = Inr ())"
    from replies_ok_bodied [OF b] have "replies_ok os evs None" "evs \<noteq> []"
      by simp_all
    moreover from l have "evs' \<noteq> [] \<or> failed r = None"
      by auto
    ultimately show "replies_ok os (evs @ evs') (failed r) \<and> (evs @ evs' = [] \<longrightarrow> r = Inr ())"
      using l by (simp add: replies_ok_append)
  qed
qed

lemma replies_ok_opened_any: "opened evs r \<Longrightarrow> replies_ok os evs r'"
  by (auto simp add: opened_def)

lemma emits_loop_close:
  "emits (andthen (do_netif_loop os sock pid acts) (\<lambda>_. close os sock)) (closed_ok os)"
proof (rule emits_andthen [OF emits_do_netif_loop_replies,
      where Q = "\<lambda>_ evs r. evs = [Close sock] \<and> r = Inr ()"])
  fix evs e
  assume "replies_ok os evs (failed (Inl e :: failure + unit)) \<and>
            (evs = [] \<longrightarrow> (Inl e :: failure + unit) = Inr ())"
  then show "closed_ok os evs (Inl e)"
    by (auto simp add: closed_ok_def)
next
  fix evs x evs' and r :: "failure + unit"
  assume "replies_ok os evs (failed (Inr x :: failure + unit)) \<and>
            (evs = [] \<longrightarrow> (Inr x :: failure + unit) = Inr ())"
    and "evs' = [Close sock] \<and> r = Inr ()"
  then show "closed_ok os (evs @ evs') r"
    by (simp add: closed_ok_def replies_ok_append)
qed (simp add: emits_close)

lemma closed_ok_opened:
  assumes "opened oevs (Inr fd)" and "closed_ok os evs r"
  shows "closed_ok os (oevs @ evs) r"
proof -
  have "replies_ok os oevs None"
    using assms(1) by (rule replies_ok_opened_any)
  then have "replies_ok os (oevs @ evs) (failed r)"
    using assms(2) by (intro replies_ok_append) (simp_all add: closed_ok_def)
  then show ?thesis
    using assms(2) by (simp add: closed_ok_def)
qed

lemma emits_drain_replies:
  "emits (andthen (nl_open os) (\<lambda>sock w'.
       andthen (do_netif_loop os sock pid acts) (\<lambda>_. close os sock) (w'\<lparr>netifs := []\<rparr>)))
     (closed_ok os)"
proof (rule emits_andthen [OF emits_nl_open, where Q = "\<lambda>_. closed_ok os"])
  fix sock :: int
  show "emits (\<lambda>w'. andthen (do_netif_loop os sock pid acts) (\<lambda>_. close os sock)
               (w'\<lparr>netifs := []\<rparr>)) (closed_ok os)"
    by (rule emits_with_netifs) (rule emits_loop_close)
next
  fix evs e
  assume o: "opened evs (Inl e)"
  then have "evs \<noteq> []" by (auto simp add: opened_def)
  then show "closed_ok os evs (Inl e)"
    using replies_ok_opened_any [OF o] by (simp add: closed_ok_def)
next
  fix evs x evs' r
  assume "opened evs (Inr x)" and "closed_ok os evs' r"
  then show "closed_ok os (evs @ evs') r"
    by (rule closed_ok_opened)
qed

lemma closed_ok_setup_loopback: "emits (setup_loopback os) (closed_ok os)"
proof (rule emits_weaken [OF emits_setup_loopback])
  fix evs and r :: "failure + unit"
  assume "(\<exists>e. opened evs (Inl e) \<and> r = Inl e) \<or>
        (\<exists>oevs fd tevs e. opened oevs (Inr fd) \<and> transacted os fd (if_up_req 1) tevs (Inl e) \<and>
           evs = oevs @ tevs \<and> r = Inl e) \<or>
        (\<exists>oevs fd tevs. opened oevs (Inr fd) \<and> transacted os fd (if_up_req 1) tevs (Inr ()) \<and>
           evs = oevs @ tevs @ [Close fd] \<and> r = Inr ())"
  then consider e where "opened evs (Inl e)" "r = Inl e"
    | oevs fd tevs e where "opened oevs (Inr fd)"
        "transacted os fd (if_up_req 1) tevs (Inl e)" "evs = oevs @ tevs" "r = Inl e"
    | oevs fd tevs where "opened oevs (Inr fd)"
        "transacted os fd (if_up_req 1) tevs (Inr ())" "evs = oevs @ tevs @ [Close fd]"
        "r = Inr ()"
    by blast
  then show "closed_ok os evs r"
  proof cases
    case 1
    from 1(1) have "evs \<noteq> []" by (auto simp add: opened_def)
    then show ?thesis
      using replies_ok_opened_any [OF 1(1)] 1(2) by (simp add: closed_ok_def)
  next
    case 2
    have "closed_ok os tevs (Inl e)"
      using replies_ok_transacted [OF 2(2)] by (simp add: closed_ok_def)
    with 2 show ?thesis
      by (simp add: closed_ok_opened)
  next
    case 3
    have "replies_ok os (tevs @ [Close fd]) None"
      using replies_ok_transacted [OF 3(2)] by (intro replies_ok_append) simp_all
    then have "closed_ok os (tevs @ [Close fd]) (Inr ())"
      by (simp add: closed_ok_def)
    with 3 show ?thesis
      by (simp add: closed_ok_opened)
  qed
qed

lemma closed_ok_reply:
  assumes ok: "closed_ok os evs r"
    and split: "evs = pre @ Recvmsg sock rep rc # post"
    and rc: "0 \<le> to_int rc" and kind: "nlmsg_type (err_hdr rep) = NLMSG_ERROR"
  shows "if sint (err_error rep) < 0
         then post = [] \<and>
              r = Inl (Error_sending_netlink_request (os_strerror os (sint (- err_error rep))))
         else post \<noteq> []"
proof -
  from ok have "replies_ok os (pre @ Recvmsg sock rep rc # post) (failed r)"
    by (simp add: closed_ok_def split)
  from replies_ok_split [OF this rc kind]
  have s: "if sint (err_error rep) < 0
         then post = [] \<and>
              failed r = Some (Error_sending_netlink_request (os_strerror os (sint (- err_error rep))))
         else post \<noteq> [] \<or> failed r = None" .
  show ?thesis
  proof (cases "sint (err_error rep) < 0")
    case True
    with s have "post = []"
      and "failed r = Some (Error_sending_netlink_request (os_strerror os (sint (- err_error rep))))"
      by simp_all
    then show ?thesis
      using True by (cases r) simp_all
  next
    case False
    have "post \<noteq> []"
    proof
      assume e: "post = []"
      with s False have "failed r = None" by simp
      then have "r = Inr ()" by (cases r) simp_all
      with ok obtain sock' where "last evs = Close sock'"
        by (auto simp add: closed_ok_def)
      then show False by (simp add: split e)
    qed
    with False show ?thesis by simp
  qed
qed

subsection \<open>The events of a whole run of \<open>do_netif\<close>\<close>

lemma emits_do_netif_loop_drained:
  "emits (do_netif_loop os sock pid acts) (drained os sock pid acts)"
proof (induction acts)
  case Nil
  show ?case by (simp add: emits_ret)
next
  case (Cons i rest)
  show ?case
    unfolding do_netif_loop.simps
  proof (rule emits_andthen [OF emits_do_netif_body, where Q = "\<lambda>_. drained os sock pid rest"])
    show "emits (do_netif_loop os sock pid rest) (drained os sock pid rest)" for x :: unit
      by (rule Cons.IH)
  next
    fix evs e
    assume "bodied os sock pid i evs (Inl e)"
    then show "drained os sock pid (i # rest) evs (Inl e)"
      by simp
  next
    fix evs evs' r and x :: unit
    assume "bodied os sock pid i evs (Inr x)" and "drained os sock pid rest evs' r"
    then show "drained os sock pid (i # rest) (evs @ evs') r"
      by auto
  qed
qed

lemma emits_drain_ran:
  "emits (andthen (nl_open os) (\<lambda>sock w'.
       andthen (do_netif_loop os sock pid acts) (\<lambda>_. close os sock) (w'\<lparr>netifs := []\<rparr>)))
     (ran os pid acts)"
proof (rule emits_andthen [OF emits_nl_open,
      where Q = "\<lambda>sock evs r. (\<exists>e. drained os sock pid acts evs (Inl e) \<and> r = Inl e) \<or>
        (\<exists>devs. drained os sock pid acts devs (Inr ()) \<and> evs = devs @ [Close sock] \<and>
           r = Inr ())"])
  fix sock :: int
  have "emits (andthen (do_netif_loop os sock pid acts) (\<lambda>_. close os sock))
     (\<lambda>evs r. (\<exists>e. drained os sock pid acts evs (Inl e) \<and> r = Inl e) \<or>
        (\<exists>devs. drained os sock pid acts devs (Inr ()) \<and> evs = devs @ [Close sock] \<and>
           r = Inr ()))"
    by (rule emits_andthen [OF emits_do_netif_loop_drained,
          where Q = "\<lambda>_ evs r. evs = [Close sock] \<and> r = Inr ()"])
       (auto simp add: emits_close)
  then show "emits (\<lambda>w'. andthen (do_netif_loop os sock pid acts) (\<lambda>_. close os sock)
               (w'\<lparr>netifs := []\<rparr>))
     (\<lambda>evs r. (\<exists>e. drained os sock pid acts evs (Inl e) \<and> r = Inl e) \<or>
        (\<exists>devs. drained os sock pid acts devs (Inr ()) \<and> evs = devs @ [Close sock] \<and>
           r = Inr ()))"
    by (rule emits_with_netifs)
next
  fix evs e
  assume "opened evs (Inl e)"
  then show "ran os pid acts evs (Inl e)"
    by (simp add: ran_def)
next
  fix evs x evs' and r :: "failure + unit"
  assume "opened evs (Inr x)"
    and "(\<exists>e. drained os x pid acts evs' (Inl e) \<and> r = Inl e) \<or>
        (\<exists>devs. drained os x pid acts devs (Inr ()) \<and> evs' = devs @ [Close x] \<and>
           r = Inr ())"
  then show "ran os pid acts (evs @ evs') r"
    unfolding ran_def by blast
qed

lemma bodied_Inr:
  assumes "bodied os sock pid i evs (Inr ())"
  obtains sevs idx tevs where "switched os sock pid i sevs (Inr idx)"
    and "transacted os sock (move_and_rename_if_req pid idx (nif_name i)) tevs (Inr ())"
    and "evs = sevs @ Move_and_rename_if pid idx (nif_name i) # tevs"
  using assms unfolding bodied_def by blast

lemma move_calls_moved:
  assumes "switched os sock pid i sevs (Inr idx)"
    and "transacted os sock (move_and_rename_if_req pid idx (nif_name i)) tevs r"
  shows "move_calls (sevs @ Move_and_rename_if pid idx (nif_name i) # tevs)
           = [(pid, idx, nif_name i)]"
  using assms by (simp add: move_calls_append move_calls_switched move_calls_transacted)

lemma drained_segments_calls:
  assumes "drained os sock pid acts evs r"
  shows "\<exists>segs idxs. evs = concat segs \<and> length segs \<le> length acts \<and>
           (\<forall>j<length segs. bodied os sock pid (acts ! j) (segs ! j)
              (if Suc j < length segs then Inr () else r)) \<and>
           (r = Inr () \<longrightarrow> length segs = length acts) \<and>
           (\<forall>e. r = Inl e \<longrightarrow> segs \<noteq> []) \<and>
           length idxs \<le> length segs \<and>
           (r = Inr () \<longrightarrow> length idxs = length segs) \<and>
           (\<forall>j<length idxs. \<exists>sevs tevs.
              switched os sock pid (acts ! j) sevs (Inr (idxs ! j)) \<and>
              segs ! j = sevs @ Move_and_rename_if pid (idxs ! j) (nif_name (acts ! j)) # tevs) \<and>
           move_calls evs = map (\<lambda>(a, if_index). (pid, if_index, nif_name a)) (zip acts idxs)"
  using assms
proof (induction acts arbitrary: evs)
  case Nil
  then show ?case by simp
next
  case (Cons i rest)
  from Cons.prems consider e where "bodied os sock pid i evs (Inl e)" "r = Inl e"
    | bevs evs' where "bodied os sock pid i bevs (Inr ())" "drained os sock pid rest evs' r"
        "evs = bevs @ evs'"
    by auto
  then show ?case
  proof cases
    case 1
    then have b: "bodied os sock pid i evs r"
      by simp
    from 1(1) consider "switched os sock pid i evs (Inl e)"
      | sevs idx tevs where "switched os sock pid i sevs (Inr idx)"
          "transacted os sock (move_and_rename_if_req pid idx (nif_name i)) tevs (Inl e)"
          "evs = sevs @ Move_and_rename_if pid idx (nif_name i) # tevs"
      unfolding bodied_def by blast
    then show ?thesis
    proof cases
      case 1
      then have m: "move_calls evs = []"
        by (rule move_calls_switched)
      show ?thesis
        using b m \<open>r = Inl e\<close>
        by (intro exI [of _ "[evs]"] exI [of _ "[] :: nat list"]) simp
    next
      case 2
      have m: "move_calls evs = [(pid, idx, nif_name i)]"
        unfolding 2(3) using 2(1,2) by (rule move_calls_moved)
      have d: "\<exists>sevs tevs. switched os sock pid i sevs (Inr idx) \<and>
                evs = sevs @ Move_and_rename_if pid idx (nif_name i) # tevs"
        using 2(1,3) by blast
      show ?thesis
        using b m d \<open>r = Inl e\<close>
        by (intro exI [of _ "[evs]"] exI [of _ "[idx]"]) simp
    qed
  next
    case 2
    from 2(1) obtain sevs idx tevs where sw: "switched os sock pid i sevs (Inr idx)"
      and tr: "transacted os sock (move_and_rename_if_req pid idx (nif_name i)) tevs (Inr ())"
      and bevs: "bevs = sevs @ Move_and_rename_if pid idx (nif_name i) # tevs"
      by (rule bodied_Inr)
    have m: "move_calls bevs = [(pid, idx, nif_name i)]"
      unfolding bevs using sw tr by (rule move_calls_moved)
    from Cons.IH [OF 2(2)] obtain segs idxs where s: "evs' = concat segs"
      and l: "length segs \<le> length rest"
      and b: "\<And>j. j < length segs \<Longrightarrow> bodied os sock pid (rest ! j) (segs ! j)
              (if Suc j < length segs then Inr () else r)"
      and a: "r = Inr () \<longrightarrow> length segs = length rest"
      and f: "\<And>e. r = Inl e \<Longrightarrow> segs \<noteq> []"
      and li: "length idxs \<le> length segs"
      and ai: "r = Inr () \<longrightarrow> length idxs = length segs"
      and c: "\<And>j. j < length idxs \<Longrightarrow> \<exists>sevs tevs.
              switched os sock pid (rest ! j) sevs (Inr (idxs ! j)) \<and>
              segs ! j = sevs @ Move_and_rename_if pid (idxs ! j) (nif_name (rest ! j)) # tevs"
      and mc: "move_calls evs'
                = map (\<lambda>(a, if_index). (pid, if_index, nif_name a)) (zip rest idxs)"
      by blast
    have r0: "segs = [] \<Longrightarrow> r = Inr ()"
      using f by (cases r) auto
    have b': "bodied os sock pid ((i # rest) ! j) ((bevs # segs) ! j)
            (if Suc j < length (bevs # segs) then Inr () else r)"
      if "j < length (bevs # segs)" for j
    proof (cases j)
      case 0
      then show ?thesis
        using 2(1) r0 by (cases "segs = []") simp_all
    next
      case (Suc j')
      with that have "j' < length segs" by simp
      from b [OF this] show ?thesis
        by (simp add: Suc)
    qed
    have c': "\<exists>sevs tevs.
              switched os sock pid ((i # rest) ! j) sevs (Inr ((idx # idxs) ! j)) \<and>
              (bevs # segs) ! j
                = sevs @ Move_and_rename_if pid ((idx # idxs) ! j) (nif_name ((i # rest) ! j)) # tevs"
      if "j < length (idx # idxs)" for j
    proof (cases j)
      case 0
      then show ?thesis
        using sw bevs by auto
    next
      case (Suc j')
      with that have "j' < length idxs" by simp
      from c [OF this] show ?thesis
        by (simp add: Suc)
    qed
    have m': "move_calls (bevs @ evs')
        = map (\<lambda>(a, if_index). (pid, if_index, nif_name a)) (zip (i # rest) (idx # idxs))"
      by (simp add: move_calls_append m mc)
    show ?thesis
      unfolding 2(3) using s l a li ai b' c' m'
      by (intro exI [of _ "bevs # segs"] exI [of _ "idx # idxs"]) simp
  qed
qed

text \<open>
  C1.  Let any actions be registered by \<open>add_netif\<close>, one after the other, on an empty
  queue, and let \<open>do_netif\<close> run.  Behind the events of opening the socket, the events of
  the run fall into consecutive segments, one for each action of an initial part of the
  registered actions, in the order of registration: segment \<open>j\<close> holds the events of the
  pass through the loop body for the \<open>j\<close>-th registered action (\<open>bodied\<close>), which are the
  events of the \<open>switch\<close> for the type of that action, with the lookup of its \<open>dev\<close> or the
  creation request made with it, then the call of \<open>move_and_rename_if\<close> and its request.
  Every pass but the last has returned.  When \<open>do_netif\<close> returns there is a segment for
  every registered action, and the closing of the socket follows; when the process has
  ended, it has ended in the last segment and nothing follows.  The calls of
  \<open>move_and_rename_if\<close> are, in their order, one for each registered action in the order
  of registration, all of them when \<open>do_netif\<close> returns and those for the first actions
  when the process has ended on the way; the \<open>j\<close>-th call stands in segment \<open>j\<close>, behind the
  events of the \<open>switch\<close> on the \<open>j\<close>-th registered action, and has the process id, the
  index that \<open>switch\<close> has left and the target name of that action.
\<close>

theorem do_netif_fifo:
  assumes empty: "netifs w = []"
    and run: "do_netif os pid (add_netifs acts w) = (r, w')"
  shows "\<exists>oevs ro segs cevs idxs.
           trace w' = trace w @ oevs @ concat segs @ cevs \<and>
           opened oevs ro \<and>
           length segs \<le> length acts \<and> length idxs \<le> length segs \<and>
           (\<forall>e. ro = Inl e \<longrightarrow> r = Inl e \<and> segs = [] \<and> cevs = []) \<and>
           (\<forall>sock. ro = Inr sock \<longrightarrow>
              (\<forall>j<length segs. bodied os sock pid (acts ! j) (segs ! j)
                 (if Suc j < length segs then Inr () else r)) \<and>
              (\<forall>j<length idxs. \<exists>sevs tevs.
                 switched os sock pid (acts ! j) sevs (Inr (idxs ! j)) \<and>
                 segs ! j
                   = sevs @ Move_and_rename_if pid (idxs ! j) (nif_name (acts ! j)) # tevs) \<and>
              (r = Inr () \<longrightarrow> length segs = length acts \<and> cevs = [Close sock]) \<and>
              (\<forall>e. r = Inl e \<longrightarrow> segs \<noteq> [] \<and> cevs = [])) \<and>
           move_calls (oevs @ concat segs @ cevs)
             = map (\<lambda>(a, if_index). (pid, if_index, nif_name a)) (zip acts idxs) \<and>
           (r = Inr () \<longrightarrow> length idxs = length acts)"
proof -
  have eq: "andthen (nl_open os) (\<lambda>sock w'.
       andthen (do_netif_loop os sock pid acts) (\<lambda>_. close os sock) (w'\<lparr>netifs := []\<rparr>))
     (add_netifs acts w) = (r, w')"
    using run by (simp add: do_netif_eq netifs_add_netifs empty)
  from emits_drain_ran eq obtain evs
    where t: "trace w' = trace (add_netifs acts w) @ evs" and ran: "ran os pid acts evs r"
    by (rule emitsD)
  from t have tw: "trace w' = trace w @ evs"
    by (simp add: trace_add_netifs)
  from ran consider e where "opened evs (Inl e)" "r = Inl e"
    | oevs sock devs e where "opened oevs (Inr sock)" "drained os sock pid acts devs (Inl e)"
        "evs = oevs @ devs" "r = Inl e"
    | oevs sock devs where "opened oevs (Inr sock)" "drained os sock pid acts devs (Inr ())"
        "evs = oevs @ devs @ [Close sock]" "r = Inr ()"
    unfolding ran_def by blast
  then show ?thesis
  proof cases
    case 1
    have "move_calls evs = []"
      using 1(1) by (rule move_calls_opened)
    with tw 1 show ?thesis
      apply -
      apply (rule exI [of _ evs], rule exI [of _ "Inl e :: failure + int"], rule exI [of _ "[]"],
          rule exI [of _ "[]"], rule exI [of _ "[]"])
      apply (simp split del: if_split)
      done
  next
    case 2
    from 2 have "drained os sock pid acts devs r"
      by simp
    from drained_segments_calls [OF this] 2(4) obtain segs idxs where s: "devs = concat segs"
      "length segs \<le> length acts"
      "\<forall>j<length segs. bodied os sock pid (acts ! j) (segs ! j)
              (if Suc j < length segs then Inr () else r)"
      "segs \<noteq> []"
      "length idxs \<le> length segs"
      "\<forall>j<length idxs. \<exists>sevs tevs.
              switched os sock pid (acts ! j) sevs (Inr (idxs ! j)) \<and>
              segs ! j = sevs @ Move_and_rename_if pid (idxs ! j) (nif_name (acts ! j)) # tevs"
      and m: "move_calls devs = map (\<lambda>(a, if_index). (pid, if_index, nif_name a)) (zip acts idxs)"
      by blast
    have "move_calls (oevs @ concat segs @ [])
            = map (\<lambda>(a, if_index). (pid, if_index, nif_name a)) (zip acts idxs)"
      using m s(1) move_calls_opened [OF 2(1)] by (simp add: move_calls_append)
    with tw 2(1,3,4) s show ?thesis
      apply -
      apply (rule exI [of _ oevs], rule exI [of _ "Inr sock :: failure + int"],
          rule exI [of _ segs], rule exI [of _ "[]"], rule exI [of _ idxs])
      apply (simp split del: if_split)
      done
  next
    case 3
    from 3 have "drained os sock pid acts devs r"
      by simp
    from drained_segments_calls [OF this] 3(4) obtain segs idxs where s: "devs = concat segs"
      "length segs \<le> length acts"
      "\<forall>j<length segs. bodied os sock pid (acts ! j) (segs ! j)
              (if Suc j < length segs then Inr () else r)"
      "length segs = length acts"
      "length idxs = length segs"
      "\<forall>j<length idxs. \<exists>sevs tevs.
              switched os sock pid (acts ! j) sevs (Inr (idxs ! j)) \<and>
              segs ! j = sevs @ Move_and_rename_if pid (idxs ! j) (nif_name (acts ! j)) # tevs"
      and m: "move_calls devs = map (\<lambda>(a, if_index). (pid, if_index, nif_name a)) (zip acts idxs)"
      by blast
    have "move_calls (oevs @ concat segs @ [Close sock])
            = map (\<lambda>(a, if_index). (pid, if_index, nif_name a)) (zip acts idxs)"
      using m s(1) move_calls_opened [OF 3(1)] by (simp add: move_calls_append)
    with tw 3(1,3,4) s show ?thesis
      apply -
      apply (rule exI [of _ oevs], rule exI [of _ "Inr sock :: failure + int"],
          rule exI [of _ segs], rule exI [of _ "[Close sock]"], rule exI [of _ idxs])
      apply (simp split del: if_split)
      done
  qed
qed

theorem do_netif_fifo_witness:
  "netifs example_world = [] \<and>
   fst (do_netif (example_os (\<lambda>_. 2) 0) 4242
     (add_netifs [\<lparr>nif_type = MOVE, nif_dev = ''eth0'', nif_name = ''wan''\<rparr>,
                  \<lparr>nif_type = MACVLAN, nif_dev = ''eth0'', nif_name = ''mv0''\<rparr>,
                  \<lparr>nif_type = VETH, nif_dev = ''veth-out'', nif_name = ''veth-in''\<rparr>]
        example_world)) = Inr () \<and>
   (\<exists>oevs sock segs cevs.
      trace (snd (do_netif (example_os (\<lambda>_. 2) 0) 4242
        (add_netifs [\<lparr>nif_type = MOVE, nif_dev = ''eth0'', nif_name = ''wan''\<rparr>,
                     \<lparr>nif_type = MACVLAN, nif_dev = ''eth0'', nif_name = ''mv0''\<rparr>,
                     \<lparr>nif_type = VETH, nif_dev = ''veth-out'', nif_name = ''veth-in''\<rparr>]
           example_world))) = trace example_world @ oevs @ concat segs @ cevs \<and>
      opened oevs (Inr sock) \<and> length segs = 3 \<and> cevs = [Close sock] \<and>
      bodied (example_os (\<lambda>_. 2) 0) sock 4242
        \<lparr>nif_type = MOVE, nif_dev = ''eth0'', nif_name = ''wan''\<rparr> (segs ! 0) (Inr ()) \<and>
      bodied (example_os (\<lambda>_. 2) 0) sock 4242
        \<lparr>nif_type = MACVLAN, nif_dev = ''eth0'', nif_name = ''mv0''\<rparr> (segs ! 1) (Inr ()) \<and>
      bodied (example_os (\<lambda>_. 2) 0) sock 4242
        \<lparr>nif_type = VETH, nif_dev = ''veth-out'', nif_name = ''veth-in''\<rparr> (segs ! 2) (Inr ()) \<and>
      move_calls (oevs @ concat segs @ cevs)
        = [(4242, 2, ''wan''), (4242, 2, ''mv0''), (4242, 2, ''veth-in'')])"
proof -
  let ?os = "example_os (\<lambda>_. 2) 0 :: unit os"
  let ?wan = "\<lparr>nif_type = MOVE, nif_dev = ''eth0'', nif_name = ''wan''\<rparr>"
  let ?mv = "\<lparr>nif_type = MACVLAN, nif_dev = ''eth0'', nif_name = ''mv0''\<rparr>"
  let ?veth = "\<lparr>nif_type = VETH, nif_dev = ''veth-out'', nif_name = ''veth-in''\<rparr>"
  let ?acts = "[?wan, ?mv, ?veth]"
  let ?run = "do_netif ?os 4242 (add_netifs ?acts example_world)"
  define r where "r = fst ?run"
  define w' where "w' = snd ?run"
  have e: "netifs example_world = []"
    by (simp add: example_world_def)
  have r: "r = Inr ()"
    unfolding r_def by (simp add: run_defs)
  have mt: "move_calls (trace w')
              = [(4242, 2, ''wan''), (4242, 2, ''mv0''), (4242, 2, ''veth-in'')]"
    unfolding w'_def by (simp add: run_defs)
  have te: "trace example_world = []"
    by (simp add: example_world_def)
  have run: "?run = (r, w')"
    by (simp add: r_def w'_def)
  have "\<exists>oevs ro segs cevs idxs.
           trace w' = trace example_world @ oevs @ concat segs @ cevs \<and>
           opened oevs ro \<and>
           length segs \<le> length ?acts \<and> length idxs \<le> length segs \<and>
           (\<forall>e. ro = Inl e \<longrightarrow> r = Inl e \<and> segs = [] \<and> cevs = []) \<and>
           (\<forall>sock. ro = Inr sock \<longrightarrow>
              (\<forall>j<length segs. bodied ?os sock 4242 (?acts ! j) (segs ! j)
                 (if Suc j < length segs then Inr () else r)) \<and>
              (\<forall>j<length idxs. \<exists>sevs tevs.
                 switched ?os sock 4242 (?acts ! j) sevs (Inr (idxs ! j)) \<and>
                 segs ! j
                   = sevs @ Move_and_rename_if 4242 (idxs ! j) (nif_name (?acts ! j)) # tevs) \<and>
              (r = Inr () \<longrightarrow> length segs = length ?acts \<and> cevs = [Close sock]) \<and>
              (\<forall>e. r = Inl e \<longrightarrow> segs \<noteq> [] \<and> cevs = [])) \<and>
           move_calls (oevs @ concat segs @ cevs)
             = map (\<lambda>(a, if_index). (4242, if_index, nif_name a)) (zip ?acts idxs) \<and>
           (r = Inr () \<longrightarrow> length idxs = length ?acts)"
    by (rule do_netif_fifo [OF e run])
  then obtain oevs ro segs cevs idxs
    where t: "trace w' = trace example_world @ oevs @ concat segs @ cevs"
      and o: "opened oevs ro"
      and "length segs \<le> length ?acts" and "length idxs \<le> length segs"
      and f: "\<forall>e. ro = Inl e \<longrightarrow> r = Inl e \<and> segs = [] \<and> cevs = []"
      and g: "\<forall>sock. ro = Inr sock \<longrightarrow>
              (\<forall>j<length segs. bodied ?os sock 4242 (?acts ! j) (segs ! j)
                 (if Suc j < length segs then Inr () else r)) \<and>
              (\<forall>j<length idxs. \<exists>sevs tevs.
                 switched ?os sock 4242 (?acts ! j) sevs (Inr (idxs ! j)) \<and>
                 segs ! j
                   = sevs @ Move_and_rename_if 4242 (idxs ! j) (nif_name (?acts ! j)) # tevs) \<and>
              (r = Inr () \<longrightarrow> length segs = length ?acts \<and> cevs = [Close sock]) \<and>
              (\<forall>e. r = Inl e \<longrightarrow> segs \<noteq> [] \<and> cevs = [])"
      and "move_calls (oevs @ concat segs @ cevs)
             = map (\<lambda>(a, if_index). (4242, if_index, nif_name a)) (zip ?acts idxs)"
      and "r = Inr () \<longrightarrow> length idxs = length ?acts"
    by (elim exE conjE)
  from f r obtain sock where ro: "ro = Inr sock"
    by (cases ro) auto
  from g ro have g': "(\<forall>j<length segs. bodied ?os sock 4242 (?acts ! j) (segs ! j)
                 (if Suc j < length segs then Inr () else r)) \<and>
              (r = Inr () \<longrightarrow> length segs = length ?acts \<and> cevs = [Close sock])"
    by blast
  with r have ls: "length segs = 3" and c: "cevs = [Close sock]"
    by simp_all
  from g' have b: "\<And>j. j < length segs \<Longrightarrow> bodied ?os sock 4242 (?acts ! j) (segs ! j)
                 (if Suc j < length segs then Inr () else r)"
    by blast
  have b0: "bodied ?os sock 4242 ?wan (segs ! 0) (Inr ())"
    using b [of 0] ls by simp
  have b1: "bodied ?os sock 4242 ?mv (segs ! 1) (Inr ())"
    using b [of 1] ls by simp
  have b2: "bodied ?os sock 4242 ?veth (segs ! 2) (Inr ())"
    using b [of 2] ls r by simp
  from t te mt have m: "move_calls (oevs @ concat segs @ cevs)
      = [(4242, 2, ''wan''), (4242, 2, ''mv0''), (4242, 2, ''veth-in'')]"
    by simp
  from o ro have o': "opened oevs (Inr sock)"
    by simp
  have "\<exists>oevs sock segs cevs.
      trace w' = trace example_world @ oevs @ concat segs @ cevs \<and>
      opened oevs (Inr sock) \<and> length segs = 3 \<and> cevs = [Close sock] \<and>
      bodied ?os sock 4242 ?wan (segs ! 0) (Inr ()) \<and>
      bodied ?os sock 4242 ?mv (segs ! 1) (Inr ()) \<and>
      bodied ?os sock 4242 ?veth (segs ! 2) (Inr ()) \<and>
      move_calls (oevs @ concat segs @ cevs)
        = [(4242, 2, ''wan''), (4242, 2, ''mv0''), (4242, 2, ''veth-in'')]"
    using t o' ls c b0 b1 b2 m by blast
  with e r show ?thesis
    unfolding r_def w'_def by (intro conjI)
qed

subsection \<open>Rejections and acknowledgements\<close>

lemma sint_INT_MIN: "sint INT_MIN = - (2 ^ 31)"
  by (simp add: INT_MIN_def)

lemma sint_uminus:
  fixes e :: "32 word"
  shows "sint (- e) = (if e = INT_MIN then - (2 ^ 31) else - sint e)"
proof (cases "e = INT_MIN")
  case True
  then show ?thesis by (simp add: INT_MIN_def)
next
  case False
  have "sint e \<noteq> - (2 ^ 31)"
  proof
    assume "sint e = - (2 ^ 31)"
    then have "sint e = sint INT_MIN" by (simp add: sint_INT_MIN)
    then have "e = INT_MIN" by (simp add: signed_word_eqI)
    with False show False by simp
  qed
  moreover have "- (2 ^ 31) \<le> sint e" "sint e < 2 ^ 31"
    using sint_range_size [of e] by (simp_all add: word_size)
  ultimately have "- (2 ^ 31) \<le> - sint e" "- sint e < 2 ^ 31"
    by linarith+
  then have "signed_take_bit 31 (- sint e) = - sint e"
    by (simp add: signed_take_bit_int_eq_self)
  then show ?thesis
    using False by (simp add: sint_word_minus)
qed

text \<open>
  C6.  In a run of \<open>do_netif\<close> or of \<open>setup_loopback\<close>, take any answer that \<open>recvmsg\<close>
  delivered, with a return code that is not negative as an \<open>int\<close>, whose header has the
  message kind \<open>NLMSG_ERROR\<close>.  If its error code is negative, it is the last thing that
  happened: the process has ended, with the message \<open>"Error sending netlink request"\<close> and
  the text of \<open>strerror\<close> for the negated code, or for \<open>INT_MIN\<close> itself where the code is
  \<open>INT_MIN\<close>, whose negation is no \<open>int\<close>; nothing of the rest of the queue has been
  processed.  If the code is not negative, the run went on, and how is said for the whole
  run.  For \<open>do_netif\<close> by \<open>ran\<close>: an operation whose answer is no rejection returns
  (\<open>transacted\<close>), the pass through the loop body goes on behind it (\<open>switched\<close>, \<open>bodied\<close>),
  and a pass that has returned is followed by the pass for the next action of the queue,
  or, behind the last action, by the closing of the socket and the return of \<open>do_netif\<close>
  (\<open>drained\<close>).  For \<open>setup_loopback\<close>: an answer to the bring-up request that is no
  rejection is followed by the closing of the socket, and \<open>setup_loopback\<close> returns.
\<close>

theorem netlink_rejection_aborts:
  assumes run: "do_netif os pid w = (r, w') \<or> setup_loopback os w = (r, w')"
  shows "\<exists>evs. trace w' = trace w @ evs \<and>
           (\<forall>pre sock rep rc post.
              evs = pre @ Recvmsg sock rep rc # post \<and> 0 \<le> to_int rc \<and>
              nlmsg_type (err_hdr rep) = NLMSG_ERROR \<longrightarrow>
              (if sint (err_error rep) < 0
               then post = [] \<and>
                    r = Inl (Error_sending_netlink_request
                               (os_strerror os
                                  (if err_error rep = INT_MIN then - (2 ^ 31)
                                   else - sint (err_error rep))))
               else post \<noteq> [])) \<and>
           (do_netif os pid w = (r, w') \<longrightarrow> ran os pid (rev (netifs w)) evs r) \<and>
           (setup_loopback os w = (r, w') \<longrightarrow>
              (\<exists>e. opened evs (Inl e) \<and> r = Inl e) \<or>
              (\<exists>oevs fd tevs e. opened oevs (Inr fd) \<and>
                 transacted os fd (if_up_req 1) tevs (Inl e) \<and> evs = oevs @ tevs \<and> r = Inl e) \<or>
              (\<exists>oevs fd tevs. opened oevs (Inr fd) \<and>
                 transacted os fd (if_up_req 1) tevs (Inr ()) \<and> evs = oevs @ tevs @ [Close fd] \<and>
                 r = Inr ()))"
proof -
  have "\<exists>evs. trace w' = trace w @ evs \<and> closed_ok os evs r"
    using run
  proof
    assume "do_netif os pid w = (r, w')"
    then have "andthen (nl_open os) (\<lambda>sock w'.
       andthen (do_netif_loop os sock pid (rev (netifs w))) (\<lambda>_. close os sock)
         (w'\<lparr>netifs := []\<rparr>)) w = (r, w')"
      by (simp add: do_netif_eq)
    with emits_drain_replies show ?thesis
      by (rule emitsD) blast
  next
    assume "setup_loopback os w = (r, w')"
    with closed_ok_setup_loopback show ?thesis
      by (rule emitsD) blast
  qed
  then obtain evs where t: "trace w' = trace w @ evs" and ok: "closed_ok os evs r"
    by blast
  have replies: "\<forall>pre sock rep rc post.
              evs = pre @ Recvmsg sock rep rc # post \<and> 0 \<le> to_int rc \<and>
              nlmsg_type (err_hdr rep) = NLMSG_ERROR \<longrightarrow>
              (if sint (err_error rep) < 0
               then post = [] \<and>
                    r = Inl (Error_sending_netlink_request
                               (os_strerror os
                                  (if err_error rep = INT_MIN then - (2 ^ 31)
                                   else - sint (err_error rep))))
               else post \<noteq> [])"
    using closed_ok_reply [OF ok] unfolding sint_uminus by blast
  have drain: "ran os pid (rev (netifs w)) evs r" if "do_netif os pid w = (r, w')"
  proof -
    from that have "andthen (nl_open os) (\<lambda>sock w'.
       andthen (do_netif_loop os sock pid (rev (netifs w))) (\<lambda>_. close os sock)
         (w'\<lparr>netifs := []\<rparr>)) w = (r, w')"
      by (simp add: do_netif_eq)
    with emits_drain_ran obtain evs'
      where "trace w' = trace w @ evs'" and "ran os pid (rev (netifs w)) evs' r"
      by (rule emitsD)
    with t show ?thesis by simp
  qed
  have up: "(\<exists>e. opened evs (Inl e) \<and> r = Inl e) \<or>
              (\<exists>oevs fd tevs e. opened oevs (Inr fd) \<and>
                 transacted os fd (if_up_req 1) tevs (Inl e) \<and> evs = oevs @ tevs \<and> r = Inl e) \<or>
              (\<exists>oevs fd tevs. opened oevs (Inr fd) \<and>
                 transacted os fd (if_up_req 1) tevs (Inr ()) \<and> evs = oevs @ tevs @ [Close fd] \<and>
                 r = Inr ())" if "setup_loopback os w = (r, w')"
  proof -
    from emits_setup_loopback that obtain evs'
      where "trace w' = trace w @ evs'"
        and "(\<exists>e. opened evs' (Inl e) \<and> r = Inl e) \<or>
              (\<exists>oevs fd tevs e. opened oevs (Inr fd) \<and>
                 transacted os fd (if_up_req 1) tevs (Inl e) \<and> evs' = oevs @ tevs \<and> r = Inl e) \<or>
              (\<exists>oevs fd tevs. opened oevs (Inr fd) \<and>
                 transacted os fd (if_up_req 1) tevs (Inr ()) \<and> evs' = oevs @ tevs @ [Close fd] \<and>
                 r = Inr ())"
      by (rule emitsD)
    with t show ?thesis by simp
  qed
  from t replies drain up show ?thesis
    by (intro exI [of _ evs] conjI impI)
qed

theorem netlink_rejection_aborts_witness:
  "fst (do_netif (example_os (\<lambda>_. 2) (- 1)) 4242
     (add_netifs [\<lparr>nif_type = MOVE, nif_dev = ''eth0'', nif_name = ''wan''\<rparr>,
                  \<lparr>nif_type = MOVE, nif_dev = ''eth1'', nif_name = ''lan''\<rparr>] example_world))
     = Inl (Error_sending_netlink_request ''Operation not permitted'') \<and>
   move_calls (trace (snd (do_netif (example_os (\<lambda>_. 2) (- 1)) 4242
     (add_netifs [\<lparr>nif_type = MOVE, nif_dev = ''eth0'', nif_name = ''wan''\<rparr>,
                  \<lparr>nif_type = MOVE, nif_dev = ''eth1'', nif_name = ''lan''\<rparr>] example_world))))
     = [(4242, 2, ''wan'')] \<and>
   fst (do_netif (example_os (\<lambda>_. 2) 0) 4242
     (add_netifs [\<lparr>nif_type = MOVE, nif_dev = ''eth0'', nif_name = ''wan''\<rparr>,
                  \<lparr>nif_type = MOVE, nif_dev = ''eth1'', nif_name = ''lan''\<rparr>] example_world))
     = Inr () \<and>
   move_calls (trace (snd (do_netif (example_os (\<lambda>_. 2) 0) 4242
     (add_netifs [\<lparr>nif_type = MOVE, nif_dev = ''eth0'', nif_name = ''wan''\<rparr>,
                  \<lparr>nif_type = MOVE, nif_dev = ''eth1'', nif_name = ''lan''\<rparr>] example_world))))
     = [(4242, 2, ''wan''), (4242, 2, ''lan'')]"
proof -
  let ?os = "example_os (\<lambda>_. 2) (- 1) :: unit os"
  let ?ackos = "example_os (\<lambda>_. 2) 0 :: unit os"
  let ?w = "add_netifs [\<lparr>nif_type = MOVE, nif_dev = ''eth0'', nif_name = ''wan''\<rparr>,
                  \<lparr>nif_type = MOVE, nif_dev = ''eth1'', nif_name = ''lan''\<rparr>] example_world"
  let ?run = "do_netif ?os 4242 ?w"
  let ?ackrun = "do_netif ?ackos 4242 ?w"
  let ?rep = "\<lparr>err_hdr = \<lparr>nlmsg_len = 36, nlmsg_type = NLMSG_ERROR, nlmsg_flags = 0,
                              nlmsg_seq = 1\<rparr>, err_error = - 1\<rparr>"
  let ?pre = "[Socket 3, Bind 3 0, If_nametoindex ''eth0'' 2, Move_and_rename_if 4242 2 ''wan'',
               Sendmsg 3 (move_and_rename_if_req 4242 2 ''wan'')
                 (int (nlmsg_len (hdr (move_and_rename_if_req 4242 2 ''wan''))))]"
  have tr: "trace (snd ?run) = trace ?w @ (?pre @ Recvmsg 3 ?rep 36 # [])"
    by (simp add: run_defs)
  have "?run = (fst ?run, snd ?run) \<or> setup_loopback ?os ?w = (fst ?run, snd ?run)"
    by simp
  from netlink_rejection_aborts [OF this] obtain evs
    where t: "trace (snd ?run) = trace ?w @ evs"
      and a: "\<And>pre sock rep rc post. evs = pre @ Recvmsg sock rep rc # post \<Longrightarrow>
              0 \<le> to_int rc \<Longrightarrow>
              nlmsg_type (err_hdr rep) = NLMSG_ERROR \<Longrightarrow>
              (if sint (err_error rep) < 0
               then post = [] \<and>
                    fst ?run = Inl (Error_sending_netlink_request
                                      (os_strerror ?os
                                         (if err_error rep = INT_MIN then - (2 ^ 31)
                                          else - sint (err_error rep))))
               else post \<noteq> [])"
    by blast
  from t tr have "evs = ?pre @ Recvmsg 3 ?rep 36 # []"
    by simp
  from a [OF this]
  have "fst ?run = Inl (Error_sending_netlink_request (os_strerror ?os 1))"
    by (simp add: to_int_small INT_MIN_def)
  then have "fst ?run = Inl (Error_sending_netlink_request ''Operation not permitted'')"
    by (simp add: example_os_def)
  moreover have "move_calls (trace (snd ?run)) = [(4242, 2, ''wan'')]"
    unfolding tr by (simp add: trace_add_netifs example_world_def)
  moreover have "fst ?ackrun = Inr ()"
    by (simp add: run_defs)
  moreover have "move_calls (trace (snd ?ackrun)) = [(4242, 2, ''wan''), (4242, 2, ''lan'')]"
    by (simp add: run_defs)
  ultimately show ?thesis by blast
qed

text \<open>
  The code \<open>INT_MIN\<close> is negative, and the text the process ends with is the one for
  \<open>INT_MIN\<close>, not the one for the negated code.
\<close>

theorem netlink_rejection_int_min_counterexample:
  "sint INT_MIN < 0 \<and>
   trace (snd (setup_loopback (example_os (\<lambda>_. 0) INT_MIN) example_world))
     = [Socket 3, Bind 3 0, Sendmsg 3 (if_up_req 1) 32,
        Recvmsg 3 \<lparr>err_hdr = \<lparr>nlmsg_len = 36, nlmsg_type = NLMSG_ERROR, nlmsg_flags = 0,
                               nlmsg_seq = 1\<rparr>, err_error = INT_MIN\<rparr> 36] \<and>
   fst (setup_loopback (example_os (\<lambda>_. 0) INT_MIN) example_world)
     = Inl (Error_sending_netlink_request ''Unknown error -2147483648'') \<and>
   os_strerror (example_os (\<lambda>_. 0) INT_MIN) (- sint INT_MIN) = ''Unknown error 2147483648''"
proof -
  have d1: "dec 2147483648 = ''2147483648''"
    by (simp add: dec.simps char_of_def bit_Suc bit_0)
  have s: "sint INT_MIN = - 2147483648" "sint (- INT_MIN) = - 2147483648"
    by (simp_all add: INT_MIN_def)
  have "sint INT_MIN < 0"
    by (simp add: s)
  moreover have "trace (snd (setup_loopback (example_os (\<lambda>_. 0) INT_MIN) example_world))
     = [Socket 3, Bind 3 0, Sendmsg 3 (if_up_req 1) 32,
        Recvmsg 3 \<lparr>err_hdr = \<lparr>nlmsg_len = 36, nlmsg_type = NLMSG_ERROR, nlmsg_flags = 0,
                               nlmsg_seq = 1\<rparr>, err_error = INT_MIN\<rparr> 36]"
    by (simp add: run_defs s nlmsg_len_if_up_req)
  moreover have "fst (setup_loopback (example_os (\<lambda>_. 0) INT_MIN) example_world)
     = Inl (Error_sending_netlink_request ''Unknown error -2147483648'')"
    by (simp add: run_defs s nlmsg_len_if_up_req printf_d_def d1)
  moreover have "os_strerror (example_os (\<lambda>_. 0) INT_MIN) (- sint INT_MIN)
      = ''Unknown error 2147483648''"
    by (simp add: example_os_def s printf_d_def d1)
  ultimately show ?thesis by blast
qed

end
